theory Spec2Isabelle
  imports Complex_Main
begin

section \<open>Data model (models/Answer, models/Comment, models/Question, models/User, models/Notification)\<close>

text \<open>
  An ObjectId is compared through \<open>toString()\<close>, which is injective, so an id is a
  natural number and the comparison is equality. A \<open>Date\<close> is a number of milliseconds.
  The field \<open>_id\<close> of a document is written \<open>x_id\<close>. A field that may be
  \<open>undefined\<close> or \<open>null\<close> is an option.
\<close>

type_synonym oid = nat
type_synonym date = nat

record vote =
  user :: oid
  createdAt :: date

record vote_ledger =
  upvotes :: "vote list"
  downvotes :: "vote list"

text \<open>
  \<open>previousContent\<close> is a string in the schema: the old content of an answer, or
  \<open>JSON.stringify({title, description, tags})\<close> of a question, kept here as the
  object that is serialised.
\<close>

datatype previous_content = PrevText string | PrevJSON string string "string list"

record edit_entry =
  editedBy :: oid
  editedAt :: date
  previousContent :: previous_content
  editReason :: string

record bounty_info =
  amount :: int
  expiresAt :: "date option"
  offeredBy :: "oid option"

record question =
  x_id :: oid
  title :: string
  description :: string
  author :: oid
  tags :: "string list"
  votes :: vote_ledger
  views :: int
  isAnswered :: bool
  acceptedAnswer :: "oid option"
  status :: string
  bounty :: bounty_info
  isEdited :: bool
  editHistory :: "edit_entry list"
  isDeleted :: bool
  deletedBy :: "oid option"
  deletedAt :: "date option"
  deleteReason :: "string option"
  createdAt :: date
  updatedAt :: date

record answer =
  x_id :: oid
  content :: string
  question :: oid
  author :: oid
  votes :: vote_ledger
  isAccepted :: bool
  acceptedAt :: "date option"
  acceptedBy :: "oid option"
  isEdited :: bool
  editHistory :: "edit_entry list"
  isDeleted :: bool
  deletedBy :: "oid option"
  deletedAt :: "date option"
  deleteReason :: "string option"
  createdAt :: date
  updatedAt :: date

record comment =
  x_id :: oid
  content :: string
  author :: oid
  question :: "oid option"
  answer :: "oid option"
  parentComment :: "oid option"
  votes :: vote_ledger
  isEdited :: bool
  editHistory :: "edit_entry list"
  isDeleted :: bool
  deletedBy :: "oid option"
  deletedAt :: "date option"
  deleteReason :: "string option"
  createdAt :: date
  updatedAt :: date

record badge =
  name :: string
  description :: string
  earnedAt :: date

record user =
  x_id :: oid
  username :: string
  email :: string
  password :: string
  role :: string
  avatar :: string
  bio :: string
  reputation :: int
  badges :: "badge list"
  isBanned :: bool
  banReason :: string
  lastSeen :: date
  emailVerified :: bool
  emailVerificationToken :: "string option"
  passwordResetToken :: "string option"
  passwordResetExpires :: "date option"
  createdAt :: date
  updatedAt :: date

text \<open>
  A notification as \<open>Notification.createNotification(data)\<close> stores it. Its own
  \<open>_id\<close>, its timestamps and the free-form \<open>metadata\<close> bag (default \<open>{}\<close>)
  are left out: no handler modelled here reads them.
\<close>

record notification =
  recipient :: oid
  sender :: "oid option"
  type :: string
  title :: string
  message :: string
  relatedQuestion :: "oid option"
  relatedAnswer :: "oid option"
  relatedComment :: "oid option"
  isRead :: bool
  readAt :: "date option"

section \<open>The vote ledger: voteCount, hasUserVoted, addVote, removeVote\<close>

text \<open>
  The three schemas carry the same four pieces of code, word for word, on
  \<open>this.votes\<close>. They are written once on the ledger and applied to each schema.
\<close>

definition voteCount :: "vote_ledger \<Rightarrow> int" where
  "voteCount vs = int (length (upvotes vs)) - int (length (downvotes vs))"

definition hasUserVoted :: "vote_ledger \<Rightarrow> oid \<Rightarrow> string option" where
  "hasUserVoted vs userId =
     (let upvoted = list_ex (\<lambda>v. vote.user v = userId) (upvotes vs);
          downvoted = list_ex (\<lambda>v. vote.user v = userId) (downvotes vs)
      in if upvoted then Some ''upvote''
         else if downvoted then Some ''downvote''
         else None)"

text \<open>
  \<open>push({ user: userId })\<close> fills \<open>createdAt\<close> with the default \<open>Date.now\<close>, the
  argument \<open>now\<close>.
\<close>

definition addVote :: "vote_ledger \<Rightarrow> oid \<Rightarrow> string \<Rightarrow> date \<Rightarrow> vote_ledger" where
  "addVote vs userId voteType now =
     (let ups = filter (\<lambda>v. vote.user v \<noteq> userId) (upvotes vs);
          downs = filter (\<lambda>v. vote.user v \<noteq> userId) (downvotes vs)
      in if voteType = ''upvote''
         then \<lparr>upvotes = ups @ [\<lparr>user = userId, createdAt = now\<rparr>], downvotes = downs\<rparr>
         else if voteType = ''downvote''
         then \<lparr>upvotes = ups, downvotes = downs @ [\<lparr>user = userId, createdAt = now\<rparr>]\<rparr>
         else \<lparr>upvotes = ups, downvotes = downs\<rparr>)"

definition removeVote :: "vote_ledger \<Rightarrow> oid \<Rightarrow> vote_ledger" where
  "removeVote vs userId =
     \<lparr>upvotes = filter (\<lambda>v. vote.user v \<noteq> userId) (upvotes vs),
      downvotes = filter (\<lambda>v. vote.user v \<noteq> userId) (downvotes vs)\<rparr>"

definition questionSchema_voteCount :: "question \<Rightarrow> int" where
  "questionSchema_voteCount q = voteCount (question.votes q)"

definition questionSchema_addVote :: "question \<Rightarrow> oid \<Rightarrow> string \<Rightarrow> date \<Rightarrow> question" where
  "questionSchema_addVote q userId voteType now =
     q\<lparr>question.votes := addVote (question.votes q) userId voteType now\<rparr>"

definition questionSchema_removeVote :: "question \<Rightarrow> oid \<Rightarrow> question" where
  "questionSchema_removeVote q userId =
     q\<lparr>question.votes := removeVote (question.votes q) userId\<rparr>"

definition answerSchema_voteCount :: "answer \<Rightarrow> int" where
  "answerSchema_voteCount a = voteCount (answer.votes a)"

definition answerSchema_addVote :: "answer \<Rightarrow> oid \<Rightarrow> string \<Rightarrow> date \<Rightarrow> answer" where
  "answerSchema_addVote a userId voteType now =
     a\<lparr>answer.votes := addVote (answer.votes a) userId voteType now\<rparr>"

definition answerSchema_removeVote :: "answer \<Rightarrow> oid \<Rightarrow> answer" where
  "answerSchema_removeVote a userId =
     a\<lparr>answer.votes := removeVote (answer.votes a) userId\<rparr>"

definition commentSchema_voteCount :: "comment \<Rightarrow> int" where
  "commentSchema_voteCount c = voteCount (comment.votes c)"

definition commentSchema_addVote :: "comment \<Rightarrow> oid \<Rightarrow> string \<Rightarrow> date \<Rightarrow> comment" where
  "commentSchema_addVote c userId voteType now =
     c\<lparr>comment.votes := addVote (comment.votes c) userId voteType now\<rparr>"

definition commentSchema_removeVote :: "comment \<Rightarrow> oid \<Rightarrow> comment" where
  "commentSchema_removeVote c userId =
     c\<lparr>comment.votes := removeVote (comment.votes c) userId\<rparr>"

text \<open>The voters of each side, and the ledger of a new document (both arrays empty).\<close>

definition upvoters :: "vote_ledger \<Rightarrow> oid list" where
  "upvoters vs = map vote.user (upvotes vs)"

definition downvoters :: "vote_ledger \<Rightarrow> oid list" where
  "downvoters vs = map vote.user (downvotes vs)"

definition new_ledger :: vote_ledger where
  "new_ledger = \<lparr>upvotes = [], downvotes = []\<rparr>"

text \<open>No voter id is on both sides.\<close>

definition exclusive :: "vote_ledger \<Rightarrow> bool" where
  "exclusive vs = (\<forall>u \<in> set (upvoters vs). u \<notin> set (downvoters vs))"

section \<open>The store and the responses\<close>

text \<open>
  A collection is the list of its documents in insertion order. \<open>findById\<close> and
  \<open>findOne\<close> return the first match; neither filters on \<open>isDeleted\<close> unless the
  query says so.
\<close>

record store =
  users :: "user list"
  questions :: "question list"
  answers :: "answer list"
  notifications :: "notification list"

definition Question_findById :: "store \<Rightarrow> oid \<Rightarrow> question option" where
  "Question_findById s i = find (\<lambda>q. question.x_id q = i) (questions s)"

definition Answer_findById :: "store \<Rightarrow> oid \<Rightarrow> answer option" where
  "Answer_findById s i = find (\<lambda>a. answer.x_id a = i) (answers s)"

definition User_findById :: "store \<Rightarrow> oid \<Rightarrow> user option" where
  "User_findById s i = find (\<lambda>u. user.x_id u = i) (users s)"

definition Answer_findOne :: "store \<Rightarrow> (answer \<Rightarrow> bool) \<Rightarrow> answer option" where
  "Answer_findOne s flt = find flt (answers s)"

text \<open>
  \<open>doc.save()\<close> of a loaded document sends the paths that the handler modified and
  nothing else: a path is modified when the value assigned to it differs from the value
  that was loaded. The stored document keeps its other paths, which shows when another
  copy of the same document was saved in between. With \<open>timestamps: true\<close> the write
  also stamps \<open>updatedAt\<close>; a save with no modified path writes nothing. Below,
  \<open>loaded\<close> is the document as it was read, \<open>held\<close> the document after the
  handler's assignments, \<open>stored\<close> the document in the collection. The two arrays
  of \<open>votes\<close> and the fields of \<open>bounty\<close> are paths of their own. (An array that
  was pushed to counts as modified; here it differs from the loaded one, but for a vote
  pushed with the voter and the time of the last entry.)
\<close>

definition pick :: "'a \<Rightarrow> 'a \<Rightarrow> 'a \<Rightarrow> 'a" where
  "pick loaded held stored = (if held = loaded then stored else held)"

definition write_question :: "question \<Rightarrow> question \<Rightarrow> question \<Rightarrow> date \<Rightarrow> question" where
  "write_question loaded held stored now =
     stored
       \<lparr>question.title := pick (question.title loaded) (question.title held) (question.title stored),
        question.description := pick (question.description loaded) (question.description held) (question.description stored),
        question.author := pick (question.author loaded) (question.author held) (question.author stored),
        question.tags := pick (question.tags loaded) (question.tags held) (question.tags stored),
        question.votes :=
          \<lparr>upvotes = pick (upvotes (question.votes loaded)) (upvotes (question.votes held)) (upvotes (question.votes stored)),
            downvotes = pick (downvotes (question.votes loaded)) (downvotes (question.votes held)) (downvotes (question.votes stored))\<rparr>,
        question.views := pick (question.views loaded) (question.views held) (question.views stored),
        question.isAnswered := pick (question.isAnswered loaded) (question.isAnswered held) (question.isAnswered stored),
        question.acceptedAnswer := pick (question.acceptedAnswer loaded) (question.acceptedAnswer held) (question.acceptedAnswer stored),
        question.status := pick (question.status loaded) (question.status held) (question.status stored),
        question.bounty :=
          \<lparr>amount = pick (amount (question.bounty loaded)) (amount (question.bounty held)) (amount (question.bounty stored)),
            expiresAt = pick (expiresAt (question.bounty loaded)) (expiresAt (question.bounty held)) (expiresAt (question.bounty stored)),
            offeredBy = pick (offeredBy (question.bounty loaded)) (offeredBy (question.bounty held)) (offeredBy (question.bounty stored))\<rparr>,
        question.isEdited := pick (question.isEdited loaded) (question.isEdited held) (question.isEdited stored),
        question.editHistory := pick (question.editHistory loaded) (question.editHistory held) (question.editHistory stored),
        question.isDeleted := pick (question.isDeleted loaded) (question.isDeleted held) (question.isDeleted stored),
        question.deletedBy := pick (question.deletedBy loaded) (question.deletedBy held) (question.deletedBy stored),
        question.deletedAt := pick (question.deletedAt loaded) (question.deletedAt held) (question.deletedAt stored),
        question.deleteReason := pick (question.deleteReason loaded) (question.deleteReason held) (question.deleteReason stored),
        question.createdAt := pick (question.createdAt loaded) (question.createdAt held) (question.createdAt stored),
        question.updatedAt := (if held = loaded then question.updatedAt stored else now)\<rparr>"

definition write_answer :: "answer \<Rightarrow> answer \<Rightarrow> answer \<Rightarrow> date \<Rightarrow> answer" where
  "write_answer loaded held stored now =
     stored
       \<lparr>answer.content := pick (answer.content loaded) (answer.content held) (answer.content stored),
        answer.question := pick (answer.question loaded) (answer.question held) (answer.question stored),
        answer.author := pick (answer.author loaded) (answer.author held) (answer.author stored),
        answer.votes :=
          \<lparr>upvotes = pick (upvotes (answer.votes loaded)) (upvotes (answer.votes held)) (upvotes (answer.votes stored)),
            downvotes = pick (downvotes (answer.votes loaded)) (downvotes (answer.votes held)) (downvotes (answer.votes stored))\<rparr>,
        answer.isAccepted := pick (answer.isAccepted loaded) (answer.isAccepted held) (answer.isAccepted stored),
        answer.acceptedAt := pick (answer.acceptedAt loaded) (answer.acceptedAt held) (answer.acceptedAt stored),
        answer.acceptedBy := pick (answer.acceptedBy loaded) (answer.acceptedBy held) (answer.acceptedBy stored),
        answer.isEdited := pick (answer.isEdited loaded) (answer.isEdited held) (answer.isEdited stored),
        answer.editHistory := pick (answer.editHistory loaded) (answer.editHistory held) (answer.editHistory stored),
        answer.isDeleted := pick (answer.isDeleted loaded) (answer.isDeleted held) (answer.isDeleted stored),
        answer.deletedBy := pick (answer.deletedBy loaded) (answer.deletedBy held) (answer.deletedBy stored),
        answer.deletedAt := pick (answer.deletedAt loaded) (answer.deletedAt held) (answer.deletedAt stored),
        answer.deleteReason := pick (answer.deleteReason loaded) (answer.deleteReason held) (answer.deleteReason stored),
        answer.createdAt := pick (answer.createdAt loaded) (answer.createdAt held) (answer.createdAt stored),
        answer.updatedAt := (if held = loaded then answer.updatedAt stored else now)\<rparr>"

definition write_user :: "user \<Rightarrow> user \<Rightarrow> user \<Rightarrow> date \<Rightarrow> user" where
  "write_user loaded held stored now =
     stored
       \<lparr>user.username := pick (user.username loaded) (user.username held) (user.username stored),
        user.email := pick (user.email loaded) (user.email held) (user.email stored),
        user.password := pick (user.password loaded) (user.password held) (user.password stored),
        user.role := pick (user.role loaded) (user.role held) (user.role stored),
        user.avatar := pick (user.avatar loaded) (user.avatar held) (user.avatar stored),
        user.bio := pick (user.bio loaded) (user.bio held) (user.bio stored),
        user.reputation := pick (user.reputation loaded) (user.reputation held) (user.reputation stored),
        user.badges := pick (user.badges loaded) (user.badges held) (user.badges stored),
        user.isBanned := pick (user.isBanned loaded) (user.isBanned held) (user.isBanned stored),
        user.banReason := pick (user.banReason loaded) (user.banReason held) (user.banReason stored),
        user.lastSeen := pick (user.lastSeen loaded) (user.lastSeen held) (user.lastSeen stored),
        user.emailVerified := pick (user.emailVerified loaded) (user.emailVerified held) (user.emailVerified stored),
        user.emailVerificationToken := pick (user.emailVerificationToken loaded) (user.emailVerificationToken held) (user.emailVerificationToken stored),
        user.passwordResetToken := pick (user.passwordResetToken loaded) (user.passwordResetToken held) (user.passwordResetToken stored),
        user.passwordResetExpires := pick (user.passwordResetExpires loaded) (user.passwordResetExpires held) (user.passwordResetExpires stored),
        user.createdAt := pick (user.createdAt loaded) (user.createdAt held) (user.createdAt stored),
        user.updatedAt := (if held = loaded then user.updatedAt stored else now)\<rparr>"

definition save_question :: "store \<Rightarrow> question \<Rightarrow> question \<Rightarrow> date \<Rightarrow> store" where
  "save_question s loaded held now =
     s\<lparr>questions := map (\<lambda>d. if question.x_id d = question.x_id held
                                then write_question loaded held d now else d) (questions s)\<rparr>"

definition save_answer :: "store \<Rightarrow> answer \<Rightarrow> answer \<Rightarrow> date \<Rightarrow> store" where
  "save_answer s loaded held now =
     s\<lparr>answers := map (\<lambda>d. if answer.x_id d = answer.x_id held
                              then write_answer loaded held d now else d) (answers s)\<rparr>"

definition save_user :: "store \<Rightarrow> user \<Rightarrow> user \<Rightarrow> date \<Rightarrow> store" where
  "save_user s loaded held now =
     s\<lparr>users := map (\<lambda>d. if user.x_id d = user.x_id held
                            then write_user loaded held d now else d) (users s)\<rparr>"

text \<open>
  The document a handler holds after its save: \<open>updatedAt\<close> is stamped when a path
  was modified.
\<close>

definition after_save_question :: "question \<Rightarrow> question \<Rightarrow> date \<Rightarrow> question" where
  "after_save_question loaded held now =
     (if held = loaded then held else held\<lparr>question.updatedAt := now\<rparr>)"

definition after_save_answer :: "answer \<Rightarrow> answer \<Rightarrow> date \<Rightarrow> answer" where
  "after_save_answer loaded held now =
     (if held = loaded then held else held\<lparr>answer.updatedAt := now\<rparr>)"

definition after_save_user :: "user \<Rightarrow> user \<Rightarrow> date \<Rightarrow> user" where
  "after_save_user loaded held now =
     (if held = loaded then held else held\<lparr>user.updatedAt := now\<rparr>)"

text \<open>
  \<open>findByIdAndUpdate(id, update)\<close> sets the fields of \<open>update\<close> on the stored
  document and stamps \<open>updatedAt\<close>.
\<close>

definition Question_findByIdAndUpdate ::
  "store \<Rightarrow> oid \<Rightarrow> (question \<Rightarrow> question) \<Rightarrow> date \<Rightarrow> store" where
  "Question_findByIdAndUpdate s i update now =
     s\<lparr>questions := map (\<lambda>d. if question.x_id d = i
                                then (update d)\<lparr>question.updatedAt := now\<rparr> else d)
                         (questions s)\<rparr>"

text \<open>
  \<open>save()\<close> of a new document inserts it. The collection has a unique index on
  \<open>_id\<close>: an insert under an id that is taken is rejected, the handler's
  \<open>catch\<close> answers 500 and nothing is stored (\<open>None\<close> here).
\<close>

definition insert_question :: "store \<Rightarrow> question \<Rightarrow> store option" where
  "insert_question s q =
     (if question.x_id q \<in> set (map question.x_id (questions s)) then None
      else Some (s\<lparr>questions := questions s @ [q]\<rparr>))"

definition insert_answer :: "store \<Rightarrow> answer \<Rightarrow> store option" where
  "insert_answer s a =
     (if answer.x_id a \<in> set (map answer.x_id (answers s)) then None
      else Some (s\<lparr>answers := answers s @ [a]\<rparr>))"

definition createNotification :: "store \<Rightarrow> notification \<Rightarrow> store" where
  "createNotification s n = s\<lparr>notifications := notifications s @ [n]\<rparr>"

text \<open>
  What a handler spreads into its JSON: the document, \<open>voteCount\<close> and
  \<open>userVote\<close>. (\<open>votes: undefined\<close> and the populated author only change how
  the document is printed.)
\<close>

datatype answer_view = AnswerView answer int "string option"

datatype question_view = QuestionView question int "string option"

record pagination =
  currentPage :: int
  totalPages :: int
  totalQuestions :: int
  hasNextPage :: bool
  hasPrevPage :: bool

datatype body =
    Message string
  | Errors "string list"
  | MessageAnswer string answer_view
  | MessageQuestion string question_view
  | QuestionList "question_view list" pagination

datatype response = Response nat body

fun status_of :: "response \<Rightarrow> nat" where
  "status_of (Response c b) = c"

fun body_of :: "response \<Rightarrow> body" where
  "body_of (Response c b) = b"

definition server_error :: response where
  "server_error = Response 500 (Message ''Server error'')"

section \<open>models/Answer: acceptAnswer, unacceptAnswer; models/Question: incrementViews\<close>

definition acceptAnswer :: "answer \<Rightarrow> oid \<Rightarrow> date \<Rightarrow> answer" where
  "acceptAnswer a userId now =
     a\<lparr>isAccepted := True, acceptedAt := Some now, acceptedBy := Some userId\<rparr>"

definition unacceptAnswer :: "answer \<Rightarrow> answer" where
  "unacceptAnswer a = a\<lparr>isAccepted := False, acceptedAt := None, acceptedBy := None\<rparr>"

definition incrementViews :: "question \<Rightarrow> question" where
  "incrementViews q = q\<lparr>views := views q + 1\<rparr>"

section \<open>routes/answers\<close>

text \<open>
  Each handler takes the store, \<open>req.user\<close> as the \<open>requireUser\<close> middleware left
  it, the parameters and body fields it reads, and the clock; it returns the store and
  the response. A body field that is missing is the empty string, as the validators
  read it; \<open>questionId\<close> is \<open>None\<close> when it is not a Mongo id. A creating handler
  also takes the \<open>_id\<close> that the driver generates for the new document. The
  real-time push after a notification touches no collection and is not modelled.
\<close>

definition quote :: string where
  "quote = [CHR 0x22]"

definition or_default :: "string option \<Rightarrow> string \<Rightarrow> string" where
  \<comment> \<open>\<open>x || d\<close> on a string that may be missing: the empty string is falsy\<close>
  "or_default x d = (case x of None \<Rightarrow> d | Some v \<Rightarrow> if v = [] then d else v)"

definition new_Answer :: "oid \<Rightarrow> string \<Rightarrow> oid \<Rightarrow> oid \<Rightarrow> date \<Rightarrow> answer" where
  "new_Answer newId content0 questionId userId now =
     \<lparr>answer.x_id = newId, content = content0, question = questionId, author = userId,
      votes = new_ledger, isAccepted = False, acceptedAt = None, acceptedBy = None,
      isEdited = False, editHistory = [], isDeleted = False, deletedBy = None,
      deletedAt = None, deleteReason = None, createdAt = now, updatedAt = now\<rparr>"

text \<open>The validation chain of \<open>POST /\<close>: the messages of \<open>errors.array()\<close>.\<close>

definition post_answer_errors :: "string \<Rightarrow> oid option \<Rightarrow> string list" where
  "post_answer_errors content0 questionId =
     (if length content0 < 20 then [''Answer must be at least 20 characters long''] else []) @
     (if questionId = None then [''Valid question ID is required''] else [])"

definition post_answer ::
  "store \<Rightarrow> user \<Rightarrow> string \<Rightarrow> oid option \<Rightarrow> oid \<Rightarrow> date \<Rightarrow> store \<times> response" where
  "post_answer s reqUser content0 questionId newId now =
     (let errors = post_answer_errors content0 questionId
      in case questionId of
           None \<Rightarrow> (s, Response 400 (Errors errors))
         | Some qid \<Rightarrow>
             if errors \<noteq> [] then (s, Response 400 (Errors errors))
             else
               (case Question_findById s qid of
                  None \<Rightarrow> (s, Response 404 (Message ''Question not found''))
                | Some qn \<Rightarrow>
                    if question.isDeleted qn
                    then (s, Response 404 (Message ''Question not found''))
                    else
                      (case Answer_findOne s
                              (\<lambda>a. answer.question a = qid \<and> answer.author a = user.x_id reqUser
                                   \<and> answer.isDeleted a = False) of
                         Some existingAnswer \<Rightarrow>
                           (s, Response 400 (Message ''You have already answered this question''))
                       | None \<Rightarrow>
                           let ans = new_Answer newId content0 qid (user.x_id reqUser) now
                           in (case insert_answer s ans of
                                 None \<Rightarrow> (s, server_error)
                               | Some s1 \<Rightarrow>
                                   let s2 =
                                     (if question.author qn \<noteq> user.x_id reqUser
                                      then createNotification s1
                                             \<lparr>recipient = question.author qn,
                                              sender = Some (user.x_id reqUser),
                                              type = ''answer_received'',
                                              title = ''New answer received'',
                                              message = username reqUser
                                                @ '' answered your question '' @ quote
                                                @ question.title qn @ quote,
                                              relatedQuestion = Some qid,
                                              relatedAnswer = Some (answer.x_id ans),
                                              relatedComment = None,
                                              isRead = False, readAt = None\<rparr>
                                      else s1)
                                   in (s2, Response 201
                                             (MessageAnswer ''Answer posted successfully''
                                                (AnswerView ans 0 None)))))))"

definition put_answer ::
  "store \<Rightarrow> user \<Rightarrow> oid \<Rightarrow> string \<Rightarrow> string option \<Rightarrow> date \<Rightarrow> store \<times> response" where
  "put_answer s reqUser id0 content0 editReason0 now =
     (if length content0 < 20
      then (s, Response 400 (Errors [''Answer must be at least 20 characters long'']))
      else
        (case Answer_findById s id0 of
           None \<Rightarrow> (s, Response 404 (Message ''Answer not found''))
         | Some ans \<Rightarrow>
             if answer.isDeleted ans
             then (s, Response 404 (Message ''Answer not found''))
             else if answer.author ans \<noteq> user.x_id reqUser \<and> role reqUser \<noteq> ''admin''
             then (s, Response 403 (Message ''Not authorized to edit this answer''))
             else if content0 = answer.content ans
             then (s, Response 400 (Message ''No changes to update''))
             else
               let ans1 = ans
                     \<lparr>answer.editHistory := answer.editHistory ans @
                        [\<lparr>editedBy = user.x_id reqUser, editedAt = now,
                          previousContent = PrevText (answer.content ans),
                          editReason = or_default editReason0 ''No reason provided''\<rparr>],
                      answer.content := content0,
                      answer.isEdited := True\<rparr>
               in (save_answer s ans ans1 now,
                   Response 200
                     (MessageAnswer ''Answer updated successfully''
                        (AnswerView (after_save_answer ans ans1 now)
                           (voteCount (answer.votes ans1))
                           (hasUserVoted (answer.votes ans1) (user.x_id reqUser)))))))"

definition delete_answer ::
  "store \<Rightarrow> user \<Rightarrow> oid \<Rightarrow> string option \<Rightarrow> date \<Rightarrow> store \<times> response" where
  "delete_answer s reqUser id0 reason now =
     (case Answer_findById s id0 of
        None \<Rightarrow> (s, Response 404 (Message ''Answer not found''))
      | Some ans \<Rightarrow>
          if answer.isDeleted ans
          then (s, Response 404 (Message ''Answer not found''))
          else if answer.author ans \<noteq> user.x_id reqUser \<and> role reqUser \<noteq> ''admin''
          then (s, Response 403 (Message ''Not authorized to delete this answer''))
          else
            let ans1 = ans
                  \<lparr>answer.isDeleted := True,
                   answer.deletedBy := Some (user.x_id reqUser),
                   answer.deletedAt := Some now,
                   answer.deleteReason := Some (or_default reason ''No reason provided'')\<rparr>
            in (save_answer s ans ans1 now,
                Response 200 (Message ''Answer deleted successfully'')))"

definition vote_answer ::
  "store \<Rightarrow> user \<Rightarrow> oid \<Rightarrow> string \<Rightarrow> date \<Rightarrow> store \<times> response" where
  "vote_answer s reqUser id0 voteType now =
     (if voteType \<notin> set [''upvote'', ''downvote'', ''remove'']
      then (s, Response 400 (Errors [''Invalid vote type'']))
      else
        (case Answer_findById s id0 of
           None \<Rightarrow> (s, Response 404 (Message ''Answer not found''))
         | Some ans \<Rightarrow>
             if answer.isDeleted ans
             then (s, Response 404 (Message ''Answer not found''))
             else
               let ans1 =
                     (if voteType = ''remove''
                      then answerSchema_removeVote ans (user.x_id reqUser)
                      else answerSchema_addVote ans (user.x_id reqUser) voteType now)
               in (save_answer s ans ans1 now,
                   Response 200
                     (MessageAnswer ''Vote updated successfully''
                        (AnswerView (after_save_answer ans ans1 now)
                           (voteCount (answer.votes ans1))
                           (hasUserVoted (answer.votes ans1) (user.x_id reqUser)))))))"

text \<open>The block \<open>// Unaccept previously accepted answer if any\<close> of the accept handler.\<close>

definition unaccept_previous :: "store \<Rightarrow> question \<Rightarrow> date \<Rightarrow> store" where
  "unaccept_previous s qn now =
     (case acceptedAnswer qn of
        None \<Rightarrow> s
      | Some prev \<Rightarrow>
          (case Answer_findById s prev of
             None \<Rightarrow> s
           | Some previousAccepted \<Rightarrow>
               save_answer s previousAccepted (unacceptAnswer previousAccepted) now))"

text \<open>
  \<open>POST /:id/accept\<close>. The handler loads \<open>answer\<close> and \<open>question\<close> once, before
  the block. When \<open>question.acceptedAnswer\<close> is \<open>:id\<close> itself, \<open>previousAccepted\<close>
  is a second copy of the document that \<open>answer\<close> holds: the block saves that copy
  unaccepted, and \<open>answer.acceptAnswer\<close> then saves the paths that differ from what
  \<open>answer\<close> was loaded with.
\<close>

definition accept_answer :: "store \<Rightarrow> user \<Rightarrow> oid \<Rightarrow> date \<Rightarrow> store \<times> response" where
  "accept_answer s reqUser id0 now =
     (case Answer_findById s id0 of
        None \<Rightarrow> (s, Response 404 (Message ''Answer not found''))
      | Some ans \<Rightarrow>
          if answer.isDeleted ans
          then (s, Response 404 (Message ''Answer not found''))
          else
            (case Question_findById s (answer.question ans) of
               None \<Rightarrow> (s, Response 404 (Message ''Question not found''))
             | Some qn \<Rightarrow>
                 if question.isDeleted qn
                 then (s, Response 404 (Message ''Question not found''))
                 else if question.author qn \<noteq> user.x_id reqUser
                 then (s, Response 403
                            (Message ''Only the question author can accept answers''))
                 else
                   let s1 = unaccept_previous s qn now;
                       ans1 = acceptAnswer ans (user.x_id reqUser) now;
                       s2 = save_answer s1 ans ans1 now;
                       qn1 = qn
                         \<lparr>isAnswered := True, acceptedAnswer := Some (answer.x_id ans)\<rparr>;
                       s3 = save_question s2 qn qn1 now;
                       s4 =
                         (if answer.author ans \<noteq> user.x_id reqUser
                          then createNotification s3
                                 \<lparr>recipient = answer.author ans,
                                  sender = Some (user.x_id reqUser),
                                  type = ''answer_accepted'',
                                  title = ''Answer accepted'',
                                  message = ''Your answer to '' @ quote
                                    @ question.title qn @ quote @ '' was accepted'',
                                  relatedQuestion = Some (question.x_id qn),
                                  relatedAnswer = Some (answer.x_id ans),
                                  relatedComment = None,
                                  isRead = False, readAt = None\<rparr>
                          else s3)
                   in (s4, Response 200
                             (MessageAnswer ''Answer accepted successfully''
                                (AnswerView (after_save_answer ans ans1 now)
                                   (voteCount (answer.votes ans1))
                                   (hasUserVoted (answer.votes ans1)
                                      (user.x_id reqUser)))))))"

definition unaccept_answer :: "store \<Rightarrow> user \<Rightarrow> oid \<Rightarrow> date \<Rightarrow> store \<times> response" where
  "unaccept_answer s reqUser id0 now =
     (case Answer_findById s id0 of
        None \<Rightarrow> (s, Response 404 (Message ''Answer not found''))
      | Some ans \<Rightarrow>
          if answer.isDeleted ans
          then (s, Response 404 (Message ''Answer not found''))
          else
            (case Question_findById s (answer.question ans) of
               None \<Rightarrow> (s, Response 404 (Message ''Question not found''))
             | Some qn \<Rightarrow>
                 if question.isDeleted qn
                 then (s, Response 404 (Message ''Question not found''))
                 else if question.author qn \<noteq> user.x_id reqUser
                 then (s, Response 403
                            (Message ''Only the question author can unaccept answers''))
                 else if \<not> isAccepted ans
                 then (s, Response 400 (Message ''This answer is not accepted''))
                 else
                   let ans1 = unacceptAnswer ans;
                       s1 = save_answer s ans ans1 now;
                       qn1 = qn\<lparr>isAnswered := False, acceptedAnswer := None\<rparr>;
                       s2 = save_question s1 qn qn1 now
                   in (s2, Response 200
                             (MessageAnswer ''Answer unaccepted successfully''
                                (AnswerView (after_save_answer ans ans1 now)
                                   (voteCount (answer.votes ans1))
                                   (hasUserVoted (answer.votes ans1)
                                      (user.x_id reqUser)))))))"

section \<open>routes/questions\<close>

text \<open>
  \<open>toLowerCase\<close> and \<open>trim\<close> on the ASCII range (a string here is a list of bytes).
\<close>

definition toLowerCase :: "string \<Rightarrow> string" where
  "toLowerCase str =
     map (\<lambda>c. let n = (of_char c :: nat) in if 65 \<le> n \<and> n \<le> 90 then char_of (n + 32) else c) str"

definition is_space :: "char \<Rightarrow> bool" where
  "is_space c = ((of_char c :: nat) \<in> set [9, 10, 11, 12, 13, 32])"

definition trim :: "string \<Rightarrow> string" where
  "trim str = rev (dropWhile is_space (rev (dropWhile is_space str)))"

text \<open>
  \<open>new Question({title, description, tags, author})\<close> with the defaults of the
  schema. The schema trims the title (\<open>trim: true\<close>) and checks \<open>minlength: 10\<close>
  on what is left when the document is saved; a failed check is thrown and the handler
  answers 500.
\<close>

definition new_Question :: "oid \<Rightarrow> string \<Rightarrow> string \<Rightarrow> string list \<Rightarrow> oid \<Rightarrow> date \<Rightarrow> question" where
  "new_Question newId title0 description0 tags0 userId now =
     \<lparr>question.x_id = newId, title = trim title0, description = description0,
      author = userId, tags = tags0, votes = new_ledger, views = 0, isAnswered = False,
      acceptedAnswer = None, status = ''open'',
      bounty = \<lparr>amount = 0, expiresAt = None, offeredBy = None\<rparr>,
      isEdited = False, editHistory = [], isDeleted = False, deletedBy = None,
      deletedAt = None, deleteReason = None, createdAt = now, updatedAt = now\<rparr>"

definition tag_errors :: "string list \<Rightarrow> string list" where
  "tag_errors ts =
     (if length ts < 1 \<or> 5 < length ts then [''Must provide 1-5 tags''] else []) @
     concat (map (\<lambda>t. if length t < 2 \<or> 20 < length t
                        then [''Each tag must be between 2 and 20 characters''] else []) ts)"

definition post_question ::
  "store \<Rightarrow> user \<Rightarrow> string \<Rightarrow> string \<Rightarrow> string list option \<Rightarrow> oid \<Rightarrow> date \<Rightarrow> store \<times> response" where
  "post_question s reqUser title0 description0 tags0 newId now =
     (let errors =
            (if length title0 < 10 \<or> 300 < length title0
             then [''Title must be between 10 and 300 characters''] else []) @
            (if length description0 < 20
             then [''Description must be at least 20 characters long''] else []) @
            (case tags0 of None \<Rightarrow> [''Must provide 1-5 tags''] | Some ts \<Rightarrow> tag_errors ts)
      in case tags0 of
           None \<Rightarrow> (s, Response 400 (Errors errors))
         | Some ts \<Rightarrow>
             if errors \<noteq> [] then (s, Response 400 (Errors errors))
             else
               let normalizedTags = map (\<lambda>tag. trim (toLowerCase tag)) ts;
                   qn = new_Question newId title0 description0 normalizedTags
                          (user.x_id reqUser) now
               in if length (question.title qn) < 10 then (s, server_error)
                  else
                    (case insert_question s qn of
                       None \<Rightarrow> (s, server_error)
                     | Some s1 \<Rightarrow>
                         (s1, Response 201
                                (MessageQuestion ''Question created successfully''
                                   (QuestionView qn 0 None)))))"

definition put_question_errors ::
  "string option \<Rightarrow> string option \<Rightarrow> string list option \<Rightarrow> string list" where
  "put_question_errors title0 description0 tags0 =
     (case title0 of None \<Rightarrow> []
      | Some t \<Rightarrow> if length t < 10 \<or> 300 < length t
                  then [''Title must be between 10 and 300 characters''] else []) @
     (case description0 of None \<Rightarrow> []
      | Some d \<Rightarrow> if length d < 20
                  then [''Description must be at least 20 characters long''] else []) @
     (case tags0 of None \<Rightarrow> [] | Some ts \<Rightarrow> tag_errors ts)"

text \<open>
  \<open>PUT /:id\<close>: an optional field is \<open>None\<close> when the body does not have it.
  \<open>updateFields\<close> is applied by \<open>findByIdAndUpdate\<close> with \<open>runValidators\<close>, so a
  title that is set goes through the same trim and \<open>minlength\<close> as on creation;
  \<open>updatedQuestion\<close> is the stored document after the update (\<open>new: true\<close>).
\<close>

definition put_question ::
  "store \<Rightarrow> user \<Rightarrow> oid \<Rightarrow> string option \<Rightarrow> string option \<Rightarrow> string list option
     \<Rightarrow> string option \<Rightarrow> date \<Rightarrow> store \<times> response" where
  "put_question s reqUser id0 title0 description0 tags0 editReason0 now =
     (let errors = put_question_errors title0 description0 tags0
      in if errors \<noteq> [] then (s, Response 400 (Errors errors))
         else
           (case Question_findById s id0 of
              None \<Rightarrow> (s, Response 404 (Message ''Question not found''))
            | Some qn \<Rightarrow>
                if question.isDeleted qn
                then (s, Response 404 (Message ''Question not found''))
                else if question.author qn \<noteq> user.x_id reqUser \<and> role reqUser \<noteq> ''admin''
                then (s, Response 403 (Message ''Not authorized to edit this question''))
                else
                  let newTitle = (case title0 of None \<Rightarrow> None
                                  | Some t \<Rightarrow> if t \<noteq> [] \<and> t \<noteq> question.title qn
                                              then Some t else None);
                      newDescription = (case description0 of None \<Rightarrow> None
                                  | Some d \<Rightarrow> if d \<noteq> [] \<and> d \<noteq> question.description qn
                                              then Some d else None);
                      newTags = map_option (map (\<lambda>tag. trim (toLowerCase tag))) tags0
                  in if newTitle = None \<and> newDescription = None \<and> newTags = None
                     then (s, Response 400 (Message ''No changes to update''))
                     else
                       let entry = \<lparr>editedBy = user.x_id reqUser, editedAt = now,
                                    previousContent =
                                      PrevJSON (question.title qn) (question.description qn)
                                        (question.tags qn),
                                    editReason = or_default editReason0 ''No reason provided''\<rparr>;
                           updateFields = (\<lambda>doc. doc
                             \<lparr>question.title :=
                                (case newTitle of None \<Rightarrow> question.title doc
                                 | Some t \<Rightarrow> trim t),
                              question.description :=
                                (case newDescription of None \<Rightarrow> question.description doc
                                 | Some d \<Rightarrow> d),
                              question.tags :=
                                (case newTags of None \<Rightarrow> question.tags doc | Some ts \<Rightarrow> ts),
                              question.isEdited := True,
                              question.editHistory := question.editHistory qn @ [entry]\<rparr>);
                           updatedQuestion = (updateFields qn)\<lparr>question.updatedAt := now\<rparr>
                       in if (case newTitle of None \<Rightarrow> False | Some t \<Rightarrow> length (trim t) < 10)
                          then (s, server_error)
                          else (Question_findByIdAndUpdate s id0 updateFields now,
                                Response 200
                                  (MessageQuestion ''Question updated successfully''
                                     (QuestionView updatedQuestion
                                        (voteCount (question.votes updatedQuestion))
                                        (hasUserVoted (question.votes updatedQuestion)
                                           (user.x_id reqUser)))))))"

definition delete_question ::
  "store \<Rightarrow> user \<Rightarrow> oid \<Rightarrow> string option \<Rightarrow> date \<Rightarrow> store \<times> response" where
  "delete_question s reqUser id0 reason now =
     (case Question_findById s id0 of
        None \<Rightarrow> (s, Response 404 (Message ''Question not found''))
      | Some qn \<Rightarrow>
          if question.isDeleted qn
          then (s, Response 404 (Message ''Question not found''))
          else if question.author qn \<noteq> user.x_id reqUser \<and> role reqUser \<noteq> ''admin''
          then (s, Response 403 (Message ''Not authorized to delete this question''))
          else
            let qn1 = qn
                  \<lparr>question.isDeleted := True,
                   question.deletedBy := Some (user.x_id reqUser),
                   question.deletedAt := Some now,
                   question.deleteReason := Some (or_default reason ''No reason provided'')\<rparr>
            in (save_question s qn qn1 now,
                Response 200 (Message ''Question deleted successfully'')))"

definition vote_question ::
  "store \<Rightarrow> user \<Rightarrow> oid \<Rightarrow> string \<Rightarrow> date \<Rightarrow> store \<times> response" where
  "vote_question s reqUser id0 voteType now =
     (if voteType \<notin> set [''upvote'', ''downvote'', ''remove'']
      then (s, Response 400 (Errors [''Invalid vote type'']))
      else
        (case Question_findById s id0 of
           None \<Rightarrow> (s, Response 404 (Message ''Question not found''))
         | Some qn \<Rightarrow>
             if question.isDeleted qn
             then (s, Response 404 (Message ''Question not found''))
             else
               let qn1 =
                     (if voteType = ''remove''
                      then questionSchema_removeVote qn (user.x_id reqUser)
                      else questionSchema_addVote qn (user.x_id reqUser) voteType now);
                   updatedQuestion = after_save_question qn qn1 now
               in (save_question s qn qn1 now,
                   Response 200
                     (MessageQuestion ''Vote updated successfully''
                        (QuestionView updatedQuestion
                           (voteCount (question.votes updatedQuestion))
                           (hasUserVoted (question.votes updatedQuestion)
                              (user.x_id reqUser)))))))"

text \<open>
  \<open>GET /\<close>: a query parameter is \<open>None\<close> when absent; \<open>page\<close> and \<open>limit\<close>
  are the integers that \<open>parseInt\<close> reads. The text index and the sort order belong
  to the database: \<open>textSearch\<close> decides \<open>$text: {$search}\<close> and \<open>sortBy\<close>
  orders the matching documents for a sort key.
\<close>

definition matches_filter ::
  "(string \<Rightarrow> question \<Rightarrow> bool) \<Rightarrow> string \<Rightarrow> string option \<Rightarrow> string option \<Rightarrow> question \<Rightarrow> bool" where
  "matches_filter textSearch sort0 tag search qn =
     (question.isDeleted qn = False
      \<and> (case tag of None \<Rightarrow> True
          | Some t \<Rightarrow> t = [] \<or> toLowerCase t \<in> set (question.tags qn))
      \<and> (case search of None \<Rightarrow> True
          | Some x \<Rightarrow> x = [] \<or> textSearch x qn)
      \<and> (sort0 = ''unanswered'' \<longrightarrow> isAnswered qn = False))"

definition get_questions_errors :: "int option \<Rightarrow> int option \<Rightarrow> string option \<Rightarrow> string list" where
  "get_questions_errors page0 limit0 sort0 =
     (case page0 of None \<Rightarrow> []
      | Some p \<Rightarrow> if p < 1 then [''Page must be a positive integer''] else []) @
     (case limit0 of None \<Rightarrow> []
      | Some l \<Rightarrow> if l < 1 \<or> 50 < l then [''Limit must be between 1 and 50''] else []) @
     (case sort0 of None \<Rightarrow> []
      | Some x \<Rightarrow> if x \<notin> set [''newest'', ''oldest'', ''votes'', ''views'', ''unanswered'']
                  then [''Invalid sort option''] else [])"

definition get_questions ::
  "(string \<Rightarrow> question \<Rightarrow> bool) \<Rightarrow> (string \<Rightarrow> question list \<Rightarrow> question list)
     \<Rightarrow> store \<Rightarrow> user option \<Rightarrow> int option \<Rightarrow> int option \<Rightarrow> string option
     \<Rightarrow> string option \<Rightarrow> string option \<Rightarrow> response" where
  "get_questions textSearch sortBy s reqUser page0 limit0 sort0 tag search =
     (let errors = get_questions_errors page0 limit0 sort0
      in if errors \<noteq> [] then Response 400 (Errors errors)
         else
           let page = (case page0 of None \<Rightarrow> 1 | Some p \<Rightarrow> if p = 0 then 1 else p);
               limit = (case limit0 of None \<Rightarrow> 10 | Some l \<Rightarrow> if l = 0 then 10 else l);
               sort1 = or_default sort0 ''newest'';
               skip = (page - 1) * limit;
               matching = filter (matches_filter textSearch sort1 tag search) (questions s);
               found = take (nat limit) (drop (nat skip) (sortBy sort1 matching));
               questionsWithVotes =
                 map (\<lambda>qn. QuestionView qn
                        (int (length (upvotes (question.votes qn)))
                           - int (length (downvotes (question.votes qn))))
                        (case reqUser of None \<Rightarrow> None
                         | Some u \<Rightarrow>
                             if list_ex (\<lambda>v. vote.user v = user.x_id u)
                                  (upvotes (question.votes qn)) then Some ''upvote''
                             else if list_ex (\<lambda>v. vote.user v = user.x_id u)
                                  (downvotes (question.votes qn)) then Some ''downvote''
                             else None)) found;
               total = int (length matching);
               totalPages = \<lceil>real_of_int total / real_of_int limit\<rceil>
           in Response 200
                (QuestionList questionsWithVotes
                   \<lparr>currentPage = page, totalPages = totalPages, totalQuestions = total,
                    hasNextPage = (page < totalPages), hasPrevPage = (page > 1)\<rparr>))"

section \<open>routes/users: PUT /:id/ban\<close>

text \<open>
  The handler runs behind \<open>requireAdmin\<close>. \<open>reason\<close> is \<open>None\<close> when the body
  has none; \<open>notEmpty()\<close> rejects that and the empty string.
\<close>

definition ban_user :: "store \<Rightarrow> oid \<Rightarrow> string option \<Rightarrow> date \<Rightarrow> store \<times> response" where
  "ban_user s id0 reason now =
     (case reason of
        None \<Rightarrow> (s, Response 400 (Errors [''Ban reason is required'']))
      | Some r \<Rightarrow>
          if r = [] then (s, Response 400 (Errors [''Ban reason is required'']))
          else
            (case User_findById s id0 of
               None \<Rightarrow> (s, Response 404 (Message ''User not found''))
             | Some usr \<Rightarrow>
                 if role usr = ''admin''
                 then (s, Response 403 (Message ''Cannot ban admin users''))
                 else (save_user s usr (usr\<lparr>isBanned := True, banReason := r\<rparr>) now,
                       Response 200 (Message ''User banned successfully''))))"

section \<open>Consistent stores\<close>

text \<open>
  What the handlers keep true of the two collections: ids are unique, every answer
  belongs to a stored question, an accepted answer is the \<open>acceptedAnswer\<close> of its
  question, and an author has at most one answer that is not deleted per question.
\<close>

definition store_inv :: "store \<Rightarrow> bool" where
  "store_inv s =
     (distinct (map question.x_id (questions s))
      \<and> distinct (map answer.x_id (answers s))
      \<and> (\<forall>a \<in> set (answers s). \<exists>q \<in> set (questions s). question.x_id q = answer.question a)
      \<and> (\<forall>a \<in> set (answers s). \<forall>q \<in> set (questions s).
            question.x_id q = answer.question a \<and> isAccepted a
              \<longrightarrow> acceptedAnswer q = Some (answer.x_id a))
      \<and> (\<forall>a \<in> set (answers s). \<forall>b \<in> set (answers s).
            answer.author a = answer.author b \<and> answer.question a = answer.question b
              \<and> \<not> answer.isDeleted a \<and> \<not> answer.isDeleted b
              \<longrightarrow> answer.x_id a = answer.x_id b))"

text \<open>A rewritten answer keeps its id, question and author, and is not undeleted.\<close>

definition keeps :: "answer \<Rightarrow> answer \<Rightarrow> bool" where
  "keeps b' b =
     (answer.x_id b' = answer.x_id b \<and> answer.question b' = answer.question b
      \<and> answer.author b' = answer.author b
      \<and> (answer.isDeleted b \<longrightarrow> answer.isDeleted b'))"

text \<open>
  The stores that requests can produce, starting without questions and answers. The
  users and the notifications are also written by routes that are not modelled
  (registration, the notification routes), so they may change freely.
  \<open>GET /questions/:id\<close> writes through \<open>incrementViews\<close>. Each request runs to
  its end before the next one starts.
\<close>

inductive reachable :: "store \<Rightarrow> bool" where
  initial: "questions s = [] \<Longrightarrow> answers s = [] \<Longrightarrow> reachable s"
| other_collections: "reachable s \<Longrightarrow> reachable (s\<lparr>users := us, notifications := ns\<rparr>)"
| r_post_question: "reachable s \<Longrightarrow> reachable (fst (post_question s u t d ts i now))"
| r_put_question: "reachable s \<Longrightarrow> reachable (fst (put_question s u i t d ts r now))"
| r_delete_question: "reachable s \<Longrightarrow> reachable (fst (delete_question s u i r now))"
| r_vote_question: "reachable s \<Longrightarrow> reachable (fst (vote_question s u i v now))"
| r_view_question: "reachable s \<Longrightarrow> Question_findById s i = Some q
    \<Longrightarrow> reachable (save_question s q (incrementViews q) now)"
| r_post_answer: "reachable s \<Longrightarrow> reachable (fst (post_answer s u c qi i now))"
| r_put_answer: "reachable s \<Longrightarrow> reachable (fst (put_answer s u i c r now))"
| r_delete_answer: "reachable s \<Longrightarrow> reachable (fst (delete_answer s u i r now))"
| r_vote_answer: "reachable s \<Longrightarrow> reachable (fst (vote_answer s u i v now))"
| r_accept_answer: "reachable s \<Longrightarrow> reachable (fst (accept_answer s u i now))"
| r_unaccept_answer: "reachable s \<Longrightarrow> reachable (fst (unaccept_answer s u i now))"
| r_ban_user: "reachable s \<Longrightarrow> reachable (fst (ban_user s i r now))"

section \<open>A small forum, used to run the handlers\<close>

definition alice :: user where
  "alice = \<lparr>user.x_id = 1, username = ''alice'', email = ''alice@example.org'',
     password = ''hash-a'', role = ''user'', avatar = [], bio = [], reputation = 0,
     badges = [], isBanned = False, banReason = [], lastSeen = 0, emailVerified = False,
     emailVerificationToken = None, passwordResetToken = None, passwordResetExpires = None,
     createdAt = 0, updatedAt = 0\<rparr>"

definition bob :: user where
  "bob = alice\<lparr>user.x_id := 2, username := ''bob'', email := ''bob@example.org''\<rparr>"

definition carol :: user where
  "carol = alice\<lparr>user.x_id := 3, username := ''carol'', email := ''carol@example.org''\<rparr>"

definition root :: user where
  "root = alice\<lparr>user.x_id := 9, username := ''root'', email := ''root@example.org'',
     role := ''admin''\<rparr>"

definition demo_title :: string where
  "demo_title = ''How to center a div''"

definition demo_description :: string where
  "demo_description = ''I tried margin auto and it fails''"

definition demo_content :: string where
  "demo_content = ''Use a flex container on the parent''"

text \<open>
  Four users; alice asks question 10; bob and carol answer it (answers 20 and 21);
  alice accepts bob's answer.
\<close>

definition store0 :: store where
  "store0 = \<lparr>users = [alice, bob, carol, root], questions = [], answers = [],
     notifications = []\<rparr>"

definition store1 :: store where
  "store1 = fst (post_question store0 alice demo_title demo_description
                   (Some [''css'', ''html'']) 10 100)"

definition store2 :: store where
  "store2 = fst (post_answer store1 bob demo_content (Some 10) 20 200)"

definition store3 :: store where
  "store3 = fst (post_answer store2 carol demo_content (Some 10) 21 300)"

definition store4 :: store where
  "store4 = fst (accept_answer store3 alice 20 400)"

definition store5 :: store where
  "store5 = fst (delete_answer store3 bob 20 None 450)"

definition store6 :: store where
  "store6 = fst (post_question
                  (fst (post_question store3 bob ''Why is my flexbox overflowing''
                          demo_description (Some [''css'']) 11 110))
                  carol ''What does the html lang attribute do'' demo_description
                  (Some [''html'']) 12 120)"

text \<open>
  The accept of answer 21 in \<open>store4\<close>, stopped after its two writes to the answers:
  the previous answer is unaccepted, answer 21 is accepted, the question is not yet
  written.
\<close>

definition store7 :: store where
  "store7 =
     (case Answer_findById store4 21 of
        None \<Rightarrow> store4
      | Some ans \<Rightarrow>
          (case Question_findById store4 (answer.question ans) of
             None \<Rightarrow> store4
           | Some qn \<Rightarrow>
               save_answer (unaccept_previous store4 qn 500) ans
                 (acceptAnswer ans (user.x_id alice) 500) 500))"

definition demo_ledger :: vote_ledger where
  "demo_ledger = \<lparr>upvotes = [\<lparr>user = 2, createdAt = 50\<rparr>, \<lparr>user = 4, createdAt = 70\<rparr>],
                   downvotes = [\<lparr>user = 3, createdAt = 60\<rparr>]\<rparr>"

definition demo_question :: question where
  "demo_question =
     (new_Question 10 demo_title demo_description [''css'', ''html''] 1 100)
       \<lparr>question.votes := demo_ledger\<rparr>"

definition demo_answer :: answer where
  "demo_answer = (new_Answer 20 demo_content 10 2 200)\<lparr>answer.votes := demo_ledger\<rparr>"

definition demo_comment :: comment where
  "demo_comment = \<lparr>comment.x_id = 30, content = ''Which browser is this?'', author = 3,
     question = Some 10, answer = None, parentComment = None, votes = demo_ledger,
     isEdited = False, editHistory = [], isDeleted = False, deletedBy = None,
     deletedAt = None, deleteReason = None, createdAt = 500, updatedAt = 500\<rparr>"

section \<open>The vote ledger: properties\<close>

lemma upvoters_addVote:
  "upvoters (addVote vs v d now) =
     filter (\<lambda>w. w \<noteq> v) (upvoters vs) @ (if d = ''upvote'' then [v] else [])"
  by (simp add: upvoters_def addVote_def Let_def filter_map comp_def)

lemma downvoters_addVote:
  "downvoters (addVote vs v d now) =
     filter (\<lambda>w. w \<noteq> v) (downvoters vs)
       @ (if d \<noteq> ''upvote'' \<and> d = ''downvote'' then [v] else [])"
  by (simp add: downvoters_def addVote_def Let_def filter_map comp_def)

lemma upvoters_removeVote:
  "upvoters (removeVote vs v) = filter (\<lambda>w. w \<noteq> v) (upvoters vs)"
  by (simp add: upvoters_def removeVote_def filter_map comp_def)

lemma downvoters_removeVote:
  "downvoters (removeVote vs v) = filter (\<lambda>w. w \<noteq> v) (downvoters vs)"
  by (simp add: downvoters_def removeVote_def filter_map comp_def)

lemma count_list_filter_neq: "count_list (filter (\<lambda>w. w \<noteq> v) xs) v = 0"
  by (induction xs) auto

lemma exclusive_addVote: "exclusive vs \<Longrightarrow> exclusive (addVote vs v d now)"
  by (auto simp: exclusive_def upvoters_addVote downvoters_addVote)

lemma exclusive_removeVote: "exclusive vs \<Longrightarrow> exclusive (removeVote vs v)"
  by (auto simp: exclusive_def upvoters_removeVote downvoters_removeVote)

lemma exclusive_new: "exclusive new_ledger"
  by (simp add: exclusive_def new_ledger_def upvoters_def)

section \<open>Stores: lookups and writes\<close>

lemma store_inv_distinct:
  "store_inv s \<Longrightarrow> distinct (map question.x_id (questions s))"
  "store_inv s \<Longrightarrow> distinct (map answer.x_id (answers s))"
  unfolding store_inv_def by blast+

lemma store_inv_question_exists:
  "store_inv s \<Longrightarrow> a \<in> set (answers s)
     \<Longrightarrow> \<exists>q \<in> set (questions s). question.x_id q = answer.question a"
  unfolding store_inv_def by blast

lemma store_inv_accepted:
  "store_inv s \<Longrightarrow> a \<in> set (answers s) \<Longrightarrow> q \<in> set (questions s)
     \<Longrightarrow> question.x_id q = answer.question a \<Longrightarrow> isAccepted a
     \<Longrightarrow> acceptedAnswer q = Some (answer.x_id a)"
  unfolding store_inv_def by blast

lemma store_inv_one_answer:
  "store_inv s \<Longrightarrow> a \<in> set (answers s) \<Longrightarrow> b \<in> set (answers s)
     \<Longrightarrow> answer.author a = answer.author b \<Longrightarrow> answer.question a = answer.question b
     \<Longrightarrow> \<not> answer.isDeleted a \<Longrightarrow> \<not> answer.isDeleted b
     \<Longrightarrow> answer.x_id a = answer.x_id b"
  unfolding store_inv_def by blast

lemma find_Some_mem: "find P xs = Some x \<Longrightarrow> x \<in> set xs \<and> P x"
  by (induction xs) (auto split: if_splits)

lemma find_None_iff2: "find P xs = None \<longleftrightarrow> (\<forall>x \<in> set xs. \<not> P x)"
  by (induction xs) auto

lemma find_distinct_key:
  "distinct (map f xs) \<Longrightarrow> x \<in> set xs \<Longrightarrow> find (\<lambda>y. f y = f x) xs = Some x"
  by (induction xs) (auto simp: image_iff)

lemma Answer_findById_mem:
  "Answer_findById s i = Some a \<Longrightarrow> a \<in> set (answers s) \<and> answer.x_id a = i"
  unfolding Answer_findById_def by (drule find_Some_mem) simp

lemma Question_findById_mem:
  "Question_findById s i = Some q \<Longrightarrow> q \<in> set (questions s) \<and> question.x_id q = i"
  unfolding Question_findById_def by (drule find_Some_mem) simp

lemma Answer_findById_distinct:
  "distinct (map answer.x_id (answers s)) \<Longrightarrow> a \<in> set (answers s)
     \<Longrightarrow> Answer_findById s (answer.x_id a) = Some a"
  unfolding Answer_findById_def by (rule find_distinct_key)

lemma Question_findById_distinct:
  "distinct (map question.x_id (questions s)) \<Longrightarrow> q \<in> set (questions s)
     \<Longrightarrow> Question_findById s (question.x_id q) = Some q"
  unfolding Question_findById_def by (rule find_distinct_key)

text \<open>A path that was not assigned keeps the stored value; an assigned one is written.\<close>

lemma pick_simps [simp]: "pick a a c = c" "pick a b a = b"
  by (simp_all add: pick_def)

lemma write_answer_simps [simp]:
  "answer.x_id (write_answer l h d now) = answer.x_id d"
  "answer.question (write_answer l h d now) =
     pick (answer.question l) (answer.question h) (answer.question d)"
  "answer.author (write_answer l h d now) =
     pick (answer.author l) (answer.author h) (answer.author d)"
  "answer.isDeleted (write_answer l h d now) =
     pick (answer.isDeleted l) (answer.isDeleted h) (answer.isDeleted d)"
  "isAccepted (write_answer l h d now) = pick (isAccepted l) (isAccepted h) (isAccepted d)"
  "acceptedAt (write_answer l h d now) = pick (acceptedAt l) (acceptedAt h) (acceptedAt d)"
  "acceptedBy (write_answer l h d now) = pick (acceptedBy l) (acceptedBy h) (acceptedBy d)"
  by (simp_all add: write_answer_def)

lemma write_question_simps [simp]:
  "question.x_id (write_question l h d now) = question.x_id d"
  "question.author (write_question l h d now) =
     pick (question.author l) (question.author h) (question.author d)"
  "question.isDeleted (write_question l h d now) =
     pick (question.isDeleted l) (question.isDeleted h) (question.isDeleted d)"
  "isAnswered (write_question l h d now) = pick (isAnswered l) (isAnswered h) (isAnswered d)"
  "acceptedAnswer (write_question l h d now) =
     pick (acceptedAnswer l) (acceptedAnswer h) (acceptedAnswer d)"
  by (simp_all add: write_question_def)

lemma write_user_simps [simp]:
  "user.x_id (write_user l h d now) = user.x_id d"
  by (simp_all add: write_user_def)

text \<open>
  When the stored document is the one that was loaded, the save leaves in the store
  what the handler holds.
\<close>

lemma write_answer_same:
  "answer.x_id h = answer.x_id l \<Longrightarrow> write_answer l h l now = after_save_answer l h now"
  by (cases l; cases h; cases "answer.votes h")
     (simp add: write_answer_def after_save_answer_def)

lemma write_question_same:
  "question.x_id h = question.x_id l
     \<Longrightarrow> write_question l h l now = after_save_question l h now"
  by (cases l; cases h; cases "question.votes h"; cases "question.bounty h")
     (simp add: write_question_def after_save_question_def)

lemma write_user_same:
  "user.x_id h = user.x_id l \<Longrightarrow> write_user l h l now = after_save_user l h now"
  by (cases l; cases h) (simp add: write_user_def after_save_user_def)

lemma after_save_answer_simps [simp]:
  "answer.x_id (after_save_answer l h now) = answer.x_id h"
  "answer.question (after_save_answer l h now) = answer.question h"
  "answer.author (after_save_answer l h now) = answer.author h"
  "answer.isDeleted (after_save_answer l h now) = answer.isDeleted h"
  "isAccepted (after_save_answer l h now) = isAccepted h"
  "acceptedAt (after_save_answer l h now) = acceptedAt h"
  "acceptedBy (after_save_answer l h now) = acceptedBy h"
  by (simp_all add: after_save_answer_def)

lemma after_save_question_simps [simp]:
  "question.x_id (after_save_question l h now) = question.x_id h"
  "question.author (after_save_question l h now) = question.author h"
  "question.isDeleted (after_save_question l h now) = question.isDeleted h"
  "isAnswered (after_save_question l h now) = isAnswered h"
  "acceptedAnswer (after_save_question l h now) = acceptedAnswer h"
  by (simp_all add: after_save_question_def)

lemma write_answer_noop [simp]: "write_answer l l d now = d"
  by (cases d; cases "answer.votes d") (simp add: write_answer_def)

lemma write_question_noop [simp]: "write_question l l d now = d"
  by (cases d; cases "question.votes d"; cases "question.bounty d")
     (simp add: write_question_def)

lemma write_user_noop [simp]: "write_user l l d now = d"
  by (cases d) (simp add: write_user_def)

lemma save_answer_simps [simp]:
  "questions (save_answer s l h now) = questions s"
  "users (save_answer s l h now) = users s"
  "notifications (save_answer s l h now) = notifications s"
  "map answer.x_id (answers (save_answer s l h now)) = map answer.x_id (answers s)"
  by (simp_all add: save_answer_def comp_def cong: map_cong)

lemma save_question_simps [simp]:
  "answers (save_question s l h now) = answers s"
  "users (save_question s l h now) = users s"
  "notifications (save_question s l h now) = notifications s"
  "map question.x_id (questions (save_question s l h now)) = map question.x_id (questions s)"
  by (simp_all add: save_question_def comp_def cong: map_cong)

lemma createNotification_simps [simp]:
  "answers (createNotification s n) = answers s"
  "questions (createNotification s n) = questions s"
  "users (createNotification s n) = users s"
  by (simp_all add: createNotification_def)

lemma store_inv_createNotification: "store_inv (createNotification s n) = store_inv s"
  by (simp add: store_inv_def)

lemma store_inv_other_collections:
  "store_inv (s\<lparr>users := us, notifications := ns\<rparr>) = store_inv s"
  by (simp add: store_inv_def)

lemma find_map_key:
  "(\<And>d. f (g d) = f d) \<Longrightarrow>
   find (\<lambda>d. f d = i) (map g xs) = map_option g (find (\<lambda>d. f d = i) xs)"
  by (induction xs) auto

lemma Answer_findById_save_answer:
  "Answer_findById (save_answer s l h now) i =
     map_option (\<lambda>d. if answer.x_id d = answer.x_id h then write_answer l h d now else d)
       (Answer_findById s i)"
  unfolding Answer_findById_def save_answer_def
  by (simp add: find_map_key [where f = answer.x_id])

lemma Question_findById_save_question:
  "Question_findById (save_question s l h now) i =
     map_option (\<lambda>d. if question.x_id d = question.x_id h then write_question l h d now else d)
       (Question_findById s i)"
  unfolding Question_findById_def save_question_def
  by (simp add: find_map_key [where f = question.x_id])

text \<open>Saving the document that was loaded from this store.\<close>

lemma Answer_findById_save_loaded:
  assumes "Answer_findById s i = Some l" and "answer.x_id h = answer.x_id l"
  shows "Answer_findById (save_answer s l h now) j =
           (if j = i then Some (after_save_answer l h now) else Answer_findById s j)"
proof (cases "Answer_findById s j")
  case None
  with assms show ?thesis by (auto simp: Answer_findById_save_answer)
next
  case (Some d)
  from Answer_findById_mem [OF Some] Answer_findById_mem [OF assms(1)]
  have "answer.x_id d = j" "answer.x_id l = i" by simp_all
  with Some assms show ?thesis
    by (auto simp: Answer_findById_save_answer write_answer_same)
qed

lemma Question_findById_save_loaded:
  assumes "Question_findById s i = Some l" and "question.x_id h = question.x_id l"
  shows "Question_findById (save_question s l h now) j =
           (if j = i then Some (after_save_question l h now) else Question_findById s j)"
proof (cases "Question_findById s j")
  case None
  with assms show ?thesis by (auto simp: Question_findById_save_question)
next
  case (Some d)
  from Question_findById_mem [OF Some] Question_findById_mem [OF assms(1)]
  have "question.x_id d = j" "question.x_id l = i" by simp_all
  with Some assms show ?thesis
    by (auto simp: Question_findById_save_question write_question_same)
qed

lemma findById_other_simps [simp]:
  "Question_findById (save_answer s l h now) i = Question_findById s i"
  "Answer_findById (save_question s q q' now) i = Answer_findById s i"
  "Question_findById (createNotification s n) i = Question_findById s i"
  "Answer_findById (createNotification s n) i = Answer_findById s i"
  by (simp_all add: Question_findById_def Answer_findById_def)

lemma store_inv_answers_step:
  assumes inv: "store_inv s"
    and qs: "questions s' = questions s"
    and ids: "map answer.x_id (answers s') = map answer.x_id (answers s)"
    and ref: "\<And>b'. b' \<in> set (answers s') \<Longrightarrow> \<exists>b \<in> set (answers s). keeps b' b"
    and acc: "\<And>b' q. b' \<in> set (answers s') \<Longrightarrow> q \<in> set (questions s)
                \<Longrightarrow> question.x_id q = answer.question b' \<Longrightarrow> isAccepted b'
                \<Longrightarrow> acceptedAnswer q = Some (answer.x_id b')"
  shows "store_inv s'"
  unfolding store_inv_def
proof (intro conjI ballI impI)
  show "distinct (map question.x_id (questions s'))"
    using store_inv_distinct(1) [OF inv] qs by simp
  show "distinct (map answer.x_id (answers s'))"
    using store_inv_distinct(2) [OF inv] ids by simp
next
  fix b' assume "b' \<in> set (answers s')"
  then obtain b where b: "b \<in> set (answers s)" "keeps b' b" using ref by blast
  with store_inv_question_exists [OF inv] obtain q
    where "q \<in> set (questions s)" "question.x_id q = answer.question b"
    by blast
  with b qs show "\<exists>q\<in>set (questions s'). question.x_id q = answer.question b'"
    by (auto simp: keeps_def)
next
  fix b' q assume "b' \<in> set (answers s')" "q \<in> set (questions s')"
    "question.x_id q = answer.question b' \<and> isAccepted b'"
  with qs acc [of b' q] show "acceptedAnswer q = Some (answer.x_id b')" by simp
next
  fix b' c' assume b': "b' \<in> set (answers s')" and c': "c' \<in> set (answers s')"
    and h: "answer.author b' = answer.author c' \<and> answer.question b' = answer.question c'
         \<and> \<not> answer.isDeleted b' \<and> \<not> answer.isDeleted c'"
  from b' obtain b where b: "b \<in> set (answers s)" "keeps b' b" using ref by blast
  from c' obtain c where c: "c \<in> set (answers s)" "keeps c' c" using ref by blast
  from b(2) c(2) h have "answer.author b = answer.author c"
    "answer.question b = answer.question c" "\<not> answer.isDeleted b" "\<not> answer.isDeleted c"
    by (auto simp: keeps_def)
  from store_inv_one_answer [OF inv b(1) c(1) this] b(2) c(2)
  show "answer.x_id b' = answer.x_id c'"
    by (simp add: keeps_def)
qed

text \<open>Rewriting the answers document by document.\<close>

lemma store_inv_map_answers:
  assumes inv: "store_inv s"
    and k: "\<And>d. d \<in> set (answers s) \<Longrightarrow> keeps (g d) d"
    and acc: "\<And>d q. d \<in> set (answers s) \<Longrightarrow> q \<in> set (questions s)
                \<Longrightarrow> question.x_id q = answer.question d \<Longrightarrow> isAccepted (g d)
                \<Longrightarrow> acceptedAnswer q = Some (answer.x_id d)"
  shows "store_inv (s\<lparr>answers := map g (answers s)\<rparr>)"
proof (rule store_inv_answers_step [OF inv])
  let ?s' = "s\<lparr>answers := map g (answers s)\<rparr>"
  show "questions ?s' = questions s" by simp
  have "map (\<lambda>d. answer.x_id (g d)) (answers s) = map answer.x_id (answers s)"
    by (rule map_cong [OF refl]) (use k in \<open>simp add: keeps_def\<close>)
  then show "map answer.x_id (answers ?s') = map answer.x_id (answers s)"
    by (simp add: comp_def)
  {
    fix b' assume "b' \<in> set (answers ?s')"
    then obtain d where "d \<in> set (answers s)" "b' = g d" by auto
    with k show "\<exists>b \<in> set (answers s). keeps b' b" by blast
  }
  {
    fix b' q assume "b' \<in> set (answers ?s')"
      and q: "q \<in> set (questions s)" "question.x_id q = answer.question b'" "isAccepted b'"
    then obtain d where d: "d \<in> set (answers s)" "b' = g d" by auto
    from k [OF d(1)] d(2) have e: "answer.question b' = answer.question d"
      "answer.x_id b' = answer.x_id d" by (simp_all add: keeps_def)
    from acc [OF d(1) q(1)] q(2,3) d(2) e show "acceptedAnswer q = Some (answer.x_id b')"
      by simp
  }
qed

text \<open>Rewriting the questions document by document.\<close>

lemma store_inv_map_questions:
  assumes inv: "store_inv s"
    and id: "\<And>d. d \<in> set (questions s) \<Longrightarrow> question.x_id (g d) = question.x_id d"
    and acc: "\<And>d b. d \<in> set (questions s) \<Longrightarrow> b \<in> set (answers s)
                \<Longrightarrow> answer.question b = question.x_id d \<Longrightarrow> isAccepted b
                \<Longrightarrow> acceptedAnswer (g d) = Some (answer.x_id b)"
  shows "store_inv (s\<lparr>questions := map g (questions s)\<rparr>)"
  unfolding store_inv_def
proof (intro conjI ballI impI)
  let ?s' = "s\<lparr>questions := map g (questions s)\<rparr>"
  have "map (\<lambda>d. question.x_id (g d)) (questions s) = map question.x_id (questions s)"
    by (rule map_cong [OF refl]) (use id in simp)
  then have ids: "map question.x_id (questions ?s') = map question.x_id (questions s)"
    by (simp add: comp_def)
  show "distinct (map question.x_id (questions ?s'))"
    unfolding ids by (rule store_inv_distinct(1) [OF inv])
  show "distinct (map answer.x_id (answers ?s'))"
    using store_inv_distinct(2) [OF inv] by simp
  {
    fix b assume "b \<in> set (answers ?s')"
    then have "b \<in> set (answers s)" by simp
    with store_inv_question_exists [OF inv] obtain p
      where p: "p \<in> set (questions s)" "question.x_id p = answer.question b"
      by blast
    then have "g p \<in> set (questions ?s')" by simp
    moreover from id [OF p(1)] p(2) have "question.x_id (g p) = answer.question b" by simp
    ultimately show "\<exists>p\<in>set (questions ?s'). question.x_id p = answer.question b" by blast
  }
  {
    fix b p' assume b: "b \<in> set (answers ?s')" and p': "p' \<in> set (questions ?s')"
      and h: "question.x_id p' = answer.question b \<and> isAccepted b"
    from b have b0: "b \<in> set (answers s)" by simp
    from p' obtain d where d: "d \<in> set (questions s)" "p' = g d" by auto
    from id [OF d(1)] d(2) h have "answer.question b = question.x_id d" by simp
    from acc [OF d(1) b0 this] h d(2) show "acceptedAnswer p' = Some (answer.x_id b)" by simp
  }
  {
    fix b c assume "b \<in> set (answers ?s')" "c \<in> set (answers ?s')"
      "answer.author b = answer.author c \<and> answer.question b = answer.question c
         \<and> \<not> answer.isDeleted b \<and> \<not> answer.isDeleted c"
    with store_inv_one_answer [OF inv, of b c] show "answer.x_id b = answer.x_id c"
      by simp
  }
qed

text \<open>
  A save that leaves the question and the author of an answer alone, does not undelete
  it and does not set \<open>isAccepted\<close>.
\<close>

lemma store_inv_save_answer_same:
  assumes inv: "store_inv s"
    and q: "answer.question h = answer.question l"
    and a: "answer.author h = answer.author l"
    and d: "answer.isDeleted l \<longrightarrow> answer.isDeleted h"
    and acc: "isAccepted h \<longrightarrow> isAccepted l"
  shows "store_inv (save_answer s l h now)"
  unfolding save_answer_def
proof (rule store_inv_map_answers [OF inv])
  fix b
  show "keeps (if answer.x_id b = answer.x_id h then write_answer l h b now else b) b"
    using q a d by (auto simp: keeps_def pick_def)
next
  fix b p assume b: "b \<in> set (answers s)" and p: "p \<in> set (questions s)"
    "question.x_id p = answer.question b"
    and i: "isAccepted (if answer.x_id b = answer.x_id h then write_answer l h b now else b)"
  from i acc have "isAccepted b" by (auto simp: pick_def split: if_splits)
  from store_inv_accepted [OF inv b p this] show "acceptedAnswer p = Some (answer.x_id b)" .
qed

text \<open>A save that leaves \<open>acceptedAnswer\<close> alone.\<close>

lemma store_inv_save_question_same:
  assumes inv: "store_inv s" and k: "acceptedAnswer h = acceptedAnswer l"
  shows "store_inv (save_question s l h now)"
  unfolding save_question_def
proof (rule store_inv_map_questions [OF inv])
  fix d
  show "question.x_id (if question.x_id d = question.x_id h then write_question l h d now else d)
          = question.x_id d" by simp
next
  fix d b assume "d \<in> set (questions s)" "b \<in> set (answers s)"
    "answer.question b = question.x_id d" "isAccepted b"
  from store_inv_accepted [OF inv this(2,1)] this(3,4) k
  show "acceptedAnswer (if question.x_id d = question.x_id h
                         then write_question l h d now else d) = Some (answer.x_id b)"
    by simp
qed

lemma store_inv_findByIdAndUpdate:
  assumes inv: "store_inv s"
    and k: "\<And>d. question.x_id (update d) = question.x_id d
                \<and> acceptedAnswer (update d) = acceptedAnswer d"
  shows "store_inv (Question_findByIdAndUpdate s i update now)"
  unfolding Question_findByIdAndUpdate_def
proof (rule store_inv_map_questions [OF inv])
  fix d
  show "question.x_id (if question.x_id d = i then (update d)\<lparr>question.updatedAt := now\<rparr> else d)
          = question.x_id d" using k by simp
next
  fix d b assume "d \<in> set (questions s)" "b \<in> set (answers s)"
    "answer.question b = question.x_id d" "isAccepted b"
  from store_inv_accepted [OF inv this(2,1)] this(3,4) k
  show "acceptedAnswer (if question.x_id d = i
                         then (update d)\<lparr>question.updatedAt := now\<rparr> else d)
          = Some (answer.x_id b)"
    by simp
qed

section \<open>The handlers keep the store consistent\<close>

lemma store_inv_insert_question:
  assumes inv: "store_inv s" and ins: "insert_question s q = Some s'"
  shows "store_inv s'"
proof -
  from ins have fresh: "question.x_id q \<notin> set (map question.x_id (questions s))"
    and s': "s' = s\<lparr>questions := questions s @ [q]\<rparr>"
    by (auto simp: insert_question_def split: if_splits)
  show ?thesis
    unfolding store_inv_def
  proof (intro conjI ballI impI)
    show "distinct (map question.x_id (questions s'))"
      using store_inv_distinct(1) [OF inv] fresh s' by simp
    show "distinct (map answer.x_id (answers s'))"
      using store_inv_distinct(2) [OF inv] s' by simp
  next
    fix a assume "a \<in> set (answers s')"
    with s' store_inv_question_exists [OF inv, of a]
    show "\<exists>p\<in>set (questions s'). question.x_id p = answer.question a" by auto
  next
    fix a p assume a: "a \<in> set (answers s')" and p: "p \<in> set (questions s')"
      and h: "question.x_id p = answer.question a \<and> isAccepted a"
    from a s' have a0: "a \<in> set (answers s)" by simp
    from store_inv_question_exists [OF inv a0]
    have "answer.question a \<in> set (map question.x_id (questions s))" by force
    with fresh h have "p \<noteq> q" by auto
    with p s' have "p \<in> set (questions s)" by simp
    from store_inv_accepted [OF inv a0 this] h
    show "acceptedAnswer p = Some (answer.x_id a)" by simp
  next
    fix a b assume "a \<in> set (answers s')" "b \<in> set (answers s')"
      "answer.author a = answer.author b \<and> answer.question a = answer.question b
         \<and> \<not> answer.isDeleted a \<and> \<not> answer.isDeleted b"
    with s' store_inv_one_answer [OF inv, of a b] show "answer.x_id a = answer.x_id b"
      by simp
  qed
qed

lemma store_inv_insert_answer:
  assumes inv: "store_inv s" and ins: "insert_answer s a = Some s'"
    and q: "Question_findById s (answer.question a) = Some q"
    and na: "\<not> isAccepted a"
    and single: "Answer_findOne s (\<lambda>b. answer.question b = answer.question a
                   \<and> answer.author b = answer.author a \<and> answer.isDeleted b = False) = None"
  shows "store_inv s'"
proof -
  from ins have fresh: "answer.x_id a \<notin> set (map answer.x_id (answers s))"
    and s': "s' = s\<lparr>answers := answers s @ [a]\<rparr>"
    by (auto simp: insert_answer_def split: if_splits)
  from single have none: "\<And>b. b \<in> set (answers s) \<Longrightarrow> answer.question b = answer.question a
      \<Longrightarrow> answer.author b = answer.author a \<Longrightarrow> answer.isDeleted b"
    by (auto simp: Answer_findOne_def find_None_iff2)
  show ?thesis
    unfolding store_inv_def
  proof (intro conjI ballI impI)
    show "distinct (map question.x_id (questions s'))"
      using store_inv_distinct(1) [OF inv] s' by simp
    show "distinct (map answer.x_id (answers s'))"
      using store_inv_distinct(2) [OF inv] fresh s' by simp
  next
    fix b assume "b \<in> set (answers s')"
    with s' have "b \<in> set (answers s) \<or> b = a" by auto
    then show "\<exists>p\<in>set (questions s'). question.x_id p = answer.question b"
    proof
      assume "b \<in> set (answers s)"
      with store_inv_question_exists [OF inv] s' show ?thesis by simp
    next
      assume "b = a"
      with Question_findById_mem [OF q] s' show ?thesis by auto
    qed
  next
    fix b p assume b: "b \<in> set (answers s')" and p: "p \<in> set (questions s')"
      and h: "question.x_id p = answer.question b \<and> isAccepted b"
    from b s' na h have b0: "b \<in> set (answers s)" by auto
    from p s' have "p \<in> set (questions s)" by simp
    from store_inv_accepted [OF inv b0 this] h
    show "acceptedAnswer p = Some (answer.x_id b)" by simp
  next
    fix b c assume b: "b \<in> set (answers s')" and c: "c \<in> set (answers s')"
      and h: "answer.author b = answer.author c \<and> answer.question b = answer.question c
         \<and> \<not> answer.isDeleted b \<and> \<not> answer.isDeleted c"
    from b s' have b0: "b \<in> set (answers s) \<or> b = a" by auto
    from c s' have c0: "c \<in> set (answers s) \<or> c = a" by auto
    from b0 c0 show "answer.x_id b = answer.x_id c"
    proof (elim disjE)
      assume "b \<in> set (answers s)" "c \<in> set (answers s)"
      with store_inv_one_answer [OF inv, of b c] h show ?thesis by simp
    next
      assume "b \<in> set (answers s)" "c = a"
      with none [of b] h show ?thesis by simp
    next
      assume "b = a" "c \<in> set (answers s)"
      with none [of c] h show ?thesis by simp
    next
      assume "b = a" "c = a" then show ?thesis by simp
    qed
  qed
qed

lemma store_inv_post_question:
  "store_inv s \<Longrightarrow> store_inv (fst (post_question s u t d ts i now))"
  by (auto simp: post_question_def Let_def server_error_def
      split: option.splits dest: store_inv_insert_question)

lemma store_inv_put_question:
  assumes "store_inv s"
  shows "store_inv (fst (put_question s u i t d ts r now))"
  using assms
  by (auto simp: put_question_def Let_def split: option.splits
      intro!: store_inv_findByIdAndUpdate)

lemma store_inv_delete_question:
  "store_inv s \<Longrightarrow> store_inv (fst (delete_question s u i r now))"
  by (auto simp: delete_question_def Let_def split: option.splits
      intro!: store_inv_save_question_same)

lemma store_inv_vote_question:
  "store_inv s \<Longrightarrow> store_inv (fst (vote_question s u i v now))"
  by (auto simp: vote_question_def Let_def questionSchema_addVote_def
      questionSchema_removeVote_def split: option.splits
      intro!: store_inv_save_question_same)

lemma store_inv_incrementViews:
  "store_inv s \<Longrightarrow> store_inv (save_question s q (incrementViews q) now)"
  by (rule store_inv_save_question_same) (auto simp: incrementViews_def)

lemma post_answer_cases:
  "fst (post_answer s u c qi i now) = s \<or>
   (\<exists>qid qn s1. qi = Some qid \<and> Question_findById s qid = Some qn
      \<and> Answer_findOne s (\<lambda>a. answer.question a = qid \<and> answer.author a = user.x_id u
                                   \<and> answer.isDeleted a = False) = None
      \<and> insert_answer s (new_Answer i c qid (user.x_id u) now) = Some s1
      \<and> (fst (post_answer s u c qi i now) = s1
          \<or> (\<exists>n. fst (post_answer s u c qi i now) = createNotification s1 n)))"
  by (auto simp: post_answer_def Let_def split: option.splits)

lemma store_inv_post_answer:
  assumes "store_inv s"
  shows "store_inv (fst (post_answer s u c qi i now))"
proof -
  let ?s' = "fst (post_answer s u c qi i now)"
  from post_answer_cases [of s u c qi i now]
  consider "?s' = s"
    | qid qn s1 where "Question_findById s qid = Some qn"
        "Answer_findOne s (\<lambda>a. answer.question a = qid \<and> answer.author a = user.x_id u
                                   \<and> answer.isDeleted a = False) = None"
        "insert_answer s (new_Answer i c qid (user.x_id u) now) = Some s1"
        "?s' = s1 \<or> (\<exists>n. ?s' = createNotification s1 n)"
    by blast
  then show ?thesis
  proof cases
    case 1
    with assms show ?thesis by simp
  next
    case (2 qid qn s1)
    have "store_inv s1"
      by (rule store_inv_insert_answer [OF assms 2(3), where q = qn])
         (use 2 in \<open>simp_all add: new_Answer_def\<close>)
    with 2(4) show ?thesis by (auto simp: store_inv_createNotification)
  qed
qed

lemma store_inv_put_answer:
  "store_inv s \<Longrightarrow> store_inv (fst (put_answer s u i c r now))"
  by (auto simp: put_answer_def Let_def split: option.splits
      intro!: store_inv_save_answer_same)

lemma store_inv_delete_answer:
  "store_inv s \<Longrightarrow> store_inv (fst (delete_answer s u i r now))"
  by (auto simp: delete_answer_def Let_def split: option.splits
      intro!: store_inv_save_answer_same)

lemma store_inv_vote_answer:
  "store_inv s \<Longrightarrow> store_inv (fst (vote_answer s u i v now))"
  by (auto simp: vote_answer_def Let_def answerSchema_addVote_def
      answerSchema_removeVote_def split: option.splits
      intro!: store_inv_save_answer_same)

lemma save_commute:
  "save_question (save_answer s a a' now) q q' now' =
     save_answer (save_question s q q' now') a a' now"
  by (simp add: save_question_def save_answer_def)

lemma unaccept_previous_simps [simp]:
  "questions (unaccept_previous s qn now) = questions s"
  "Question_findById (unaccept_previous s qn now) i = Question_findById s i"
  "notifications (unaccept_previous s qn now) = notifications s"
  "users (unaccept_previous s qn now) = users s"
  by (simp_all add: unaccept_previous_def split: option.splits)

lemma store_inv_unaccept_previous:
  assumes "store_inv s"
  shows "store_inv (unaccept_previous s qn now)"
  using assms
  by (auto simp: unaccept_previous_def unacceptAnswer_def split: option.splits
      intro!: store_inv_save_answer_same)

text \<open>
  After the block, the previously accepted answer is the stored one with the three
  fields of \<open>unacceptAnswer\<close> written.
\<close>

lemma Answer_findById_unaccept_previous:
  "Answer_findById (unaccept_previous s qn now) j =
     (if acceptedAnswer qn = Some j
      then map_option (\<lambda>d. after_save_answer d (unacceptAnswer d) now) (Answer_findById s j)
      else Answer_findById s j)"
proof (cases "\<exists>prev pa. acceptedAnswer qn = Some prev \<and> Answer_findById s prev = Some pa")
  case False
  then show ?thesis
    by (cases "Answer_findById s j") (auto simp: unaccept_previous_def split: option.splits)
next
  case True
  then obtain prev pa where p: "acceptedAnswer qn = Some prev"
    "Answer_findById s prev = Some pa" by blast
  have "answer.x_id (unacceptAnswer pa) = answer.x_id pa" by (simp add: unacceptAnswer_def)
  from Answer_findById_save_loaded [OF p(2) this, of now j] p
  show ?thesis by (auto simp: unaccept_previous_def)
qed

lemma unaccept_previous_none_accepted:
  assumes inv: "store_inv s" and qn: "qn \<in> set (questions s)"
    and b: "b \<in> set (answers (unaccept_previous s qn now))"
    and bq: "answer.question b = question.x_id qn"
  shows "\<not> isAccepted b"
proof
  assume acc: "isAccepted b"
  let ?s1 = "unaccept_previous s qn now"
  have inv1: "store_inv ?s1" by (rule store_inv_unaccept_previous [OF inv])
  from Answer_findById_distinct [OF store_inv_distinct(2) [OF inv1] b]
  have f1: "Answer_findById ?s1 (answer.x_id b) = Some b" .
  from qn have qn1: "qn \<in> set (questions ?s1)" by simp
  from store_inv_accepted [OF inv1 b qn1] bq acc
  have cur: "acceptedAnswer qn = Some (answer.x_id b)" by simp
  from f1 cur obtain d where "b = after_save_answer d (unacceptAnswer d) now"
    by (auto simp: Answer_findById_unaccept_previous)
  with acc show False by (simp add: unacceptAnswer_def)
qed

text \<open>The block keeps the identity of every answer.\<close>

lemma unaccept_previous_keeps:
  assumes "b \<in> set (answers (unaccept_previous s qn now))"
  shows "\<exists>d \<in> set (answers s). keeps b d"
proof (cases "\<exists>prev pa. acceptedAnswer qn = Some prev \<and> Answer_findById s prev = Some pa")
  case False
  with assms have "b \<in> set (answers s)"
    by (auto simp: unaccept_previous_def split: option.splits)
  moreover have "keeps b b" by (simp add: keeps_def)
  ultimately show ?thesis by blast
next
  case True
  then obtain prev pa where p: "acceptedAnswer qn = Some prev"
    "Answer_findById s prev = Some pa" by blast
  with assms obtain d where d: "d \<in> set (answers s)"
    "b = (if answer.x_id d = answer.x_id (unacceptAnswer pa)
          then write_answer pa (unacceptAnswer pa) d now else d)"
    by (auto simp: unaccept_previous_def save_answer_def)
  then have "keeps b d" by (simp add: keeps_def unacceptAnswer_def)
  with d(1) show ?thesis by blast
qed

text \<open>The three writes of a successful accept, from a consistent store.\<close>

lemma store_inv_accept_writes:
  assumes inv: "store_inv s"
    and fa: "Answer_findById s i = Some ans"
    and fq: "Question_findById s (answer.question ans) = Some qn"
  shows "store_inv
           (save_question
              (save_answer (unaccept_previous s qn now) ans (acceptAnswer ans uid now) now)
              qn (qn\<lparr>isAnswered := True, acceptedAnswer := Some (answer.x_id ans)\<rparr>) now)"
proof -
  let ?s1 = "unaccept_previous s qn now"
  let ?qn1 = "qn\<lparr>isAnswered := True, acceptedAnswer := Some (answer.x_id ans)\<rparr>"
  let ?ans1 = "acceptAnswer ans uid now"
  let ?sq = "save_question ?s1 qn ?qn1 now"
  let ?gq = "\<lambda>d. if question.x_id d = question.x_id ?qn1 then write_question qn ?qn1 d now else d"
  let ?ga = "\<lambda>d. if answer.x_id d = answer.x_id ?ans1 then write_answer ans ?ans1 d now else d"
  have inv1: "store_inv ?s1" by (rule store_inv_unaccept_previous [OF inv])
  from fq have qm: "qn \<in> set (questions s)" and qi: "question.x_id qn = answer.question ans"
    by (simp_all add: Question_findById_mem)
  from fa have am: "ans \<in> set (answers s)" and ai: "answer.x_id ans = i"
    by (simp_all add: Answer_findById_mem)
  have fq1: "Question_findById ?s1 (answer.question ans) = Some qn" using fq by simp
  have "store_inv (?s1\<lparr>questions := map ?gq (questions ?s1)\<rparr>)"
  proof (rule store_inv_map_questions [OF inv1])
    fix d show "question.x_id (?gq d) = question.x_id d" by simp
  next
    fix d b assume d: "d \<in> set (questions ?s1)" and b: "b \<in> set (answers ?s1)"
      "answer.question b = question.x_id d" "isAccepted b"
    show "acceptedAnswer (?gq d) = Some (answer.x_id b)"
    proof (cases "question.x_id d = question.x_id qn")
      case True
      with b(2) unaccept_previous_none_accepted [OF inv qm b(1)] b(3) show ?thesis by simp
    next
      case False
      with store_inv_accepted [OF inv1 b(1) d] b(2,3) show ?thesis by simp
    qed
  qed
  then have invq: "store_inv ?sq" by (simp add: save_question_def)
  have fqq: "Question_findById ?sq (answer.question ans) = Some (after_save_question qn ?qn1 now)"
    using Question_findById_save_loaded [OF fq1, of ?qn1 now "answer.question ans"] by simp
  have "store_inv (?sq\<lparr>answers := map ?ga (answers ?sq)\<rparr>)"
  proof (rule store_inv_map_answers [OF invq])
    fix d show "keeps (?ga d) d" by (simp add: keeps_def acceptAnswer_def)
  next
    fix d q assume d: "d \<in> set (answers ?sq)" and q: "q \<in> set (questions ?sq)"
      "question.x_id q = answer.question d" and acc: "isAccepted (?ga d)"
    show "acceptedAnswer q = Some (answer.x_id d)"
    proof (cases "answer.x_id d = answer.x_id ans")
      case True
      from d have "d \<in> set (answers ?s1)" by simp
      from unaccept_previous_keeps [OF this] obtain d0
        where d0: "d0 \<in> set (answers s)" "keeps d d0" by blast
      with True ai have "answer.x_id d0 = i" by (simp add: keeps_def)
      with Answer_findById_distinct [OF store_inv_distinct(2) [OF inv] d0(1)]
      have "Answer_findById s i = Some d0" by simp
      with fa have "d0 = ans" by simp
      with d0(2) have "answer.question d = answer.question ans" by (simp add: keeps_def)
      with Question_findById_distinct [OF store_inv_distinct(1) [OF invq] q(1)] q(2) fqq
      have "q = after_save_question qn ?qn1 now" by simp
      with True show ?thesis by simp
    next
      case False
      with acc have "isAccepted d" by (simp add: acceptAnswer_def)
      from store_inv_accepted [OF invq d q this] show ?thesis .
    qed
  qed
  then have "store_inv (save_answer ?sq ans ?ans1 now)" by (simp add: save_answer_def)
  then show ?thesis by (simp add: save_commute)
qed

lemma accept_answer_cases:
  "fst (accept_answer s u i now) = s \<or>
   (\<exists>ans qn s3. Answer_findById s i = Some ans \<and> \<not> answer.isDeleted ans
      \<and> Question_findById s (answer.question ans) = Some qn
      \<and> s3 = save_question
              (save_answer (unaccept_previous s qn now) ans
                 (acceptAnswer ans (user.x_id u) now) now)
              qn (qn\<lparr>isAnswered := True, acceptedAnswer := Some (answer.x_id ans)\<rparr>) now
      \<and> (fst (accept_answer s u i now) = s3
          \<or> (\<exists>n. fst (accept_answer s u i now) = createNotification s3 n)))"
  by (auto simp: accept_answer_def Let_def split: option.splits)

lemma store_inv_accept_answer:
  assumes "store_inv s"
  shows "store_inv (fst (accept_answer s u i now))"
proof -
  let ?s' = "fst (accept_answer s u i now)"
  from accept_answer_cases [of s u i now]
  consider "?s' = s"
    | ans qn s3 where "Answer_findById s i = Some ans" "\<not> answer.isDeleted ans"
        "Question_findById s (answer.question ans) = Some qn"
        "s3 = save_question
              (save_answer (unaccept_previous s qn now) ans
                 (acceptAnswer ans (user.x_id u) now) now)
              qn (qn\<lparr>isAnswered := True, acceptedAnswer := Some (answer.x_id ans)\<rparr>) now"
        "?s' = s3 \<or> (\<exists>n. ?s' = createNotification s3 n)"
    by blast
  then show ?thesis
  proof cases
    case 1
    with assms show ?thesis by simp
  next
    case (2 ans qn s3)
    from store_inv_accept_writes [OF assms 2(1,3)] 2(4) have "store_inv s3" by simp
    with 2(5) show ?thesis by (auto simp: store_inv_createNotification)
  qed
qed

lemma unaccept_answer_cases:
  "fst (unaccept_answer s u i now) = s \<or>
   (\<exists>ans qn. Answer_findById s i = Some ans \<and> isAccepted ans
      \<and> Question_findById s (answer.question ans) = Some qn
      \<and> fst (unaccept_answer s u i now) =
          save_question (save_answer s ans (unacceptAnswer ans) now)
            qn (qn\<lparr>isAnswered := False, acceptedAnswer := None\<rparr>) now)"
  by (auto simp: unaccept_answer_def Let_def split: option.splits)

lemma store_inv_unaccept_answer:
  assumes inv: "store_inv s"
  shows "store_inv (fst (unaccept_answer s u i now))"
proof -
  let ?s' = "fst (unaccept_answer s u i now)"
  from unaccept_answer_cases [of s u i now]
  consider "?s' = s"
    | ans qn where "Answer_findById s i = Some ans" "isAccepted ans"
        "Question_findById s (answer.question ans) = Some qn"
        "?s' = save_question (save_answer s ans (unacceptAnswer ans) now)
            qn (qn\<lparr>isAnswered := False, acceptedAnswer := None\<rparr>) now"
    by blast
  then show ?thesis
  proof cases
    case 1
    with inv show ?thesis by simp
  next
    case (2 ans qn)
    let ?s1 = "save_answer s ans (unacceptAnswer ans) now"
    let ?qn1 = "qn\<lparr>isAnswered := False, acceptedAnswer := None\<rparr>"
    let ?gq = "\<lambda>d. if question.x_id d = question.x_id ?qn1
                    then write_question qn ?qn1 d now else d"
    from 2(1) have am: "ans \<in> set (answers s)" and ai: "answer.x_id ans = i"
      by (simp_all add: Answer_findById_mem)
    from 2(3) have qm: "qn \<in> set (questions s)" "question.x_id qn = answer.question ans"
      by (simp_all add: Question_findById_mem)
    from store_inv_accepted [OF inv am qm 2(2)]
    have cur: "acceptedAnswer qn = Some (answer.x_id ans)" .
    have inv1: "store_inv ?s1"
      by (rule store_inv_save_answer_same [OF inv]) (simp_all add: unacceptAnswer_def)
    have xi: "answer.x_id (unacceptAnswer ans) = answer.x_id ans"
      by (simp add: unacceptAnswer_def)
    have "store_inv (?s1\<lparr>questions := map ?gq (questions ?s1)\<rparr>)"
    proof (rule store_inv_map_questions [OF inv1])
      fix d show "question.x_id (?gq d) = question.x_id d" by simp
    next
      fix d b assume d: "d \<in> set (questions ?s1)" and b: "b \<in> set (answers ?s1)"
        "answer.question b = question.x_id d" "isAccepted b"
      show "acceptedAnswer (?gq d) = Some (answer.x_id b)"
      proof (cases "question.x_id d = question.x_id qn")
        case False
        with store_inv_accepted [OF inv1 b(1) d] b(2,3) show ?thesis by simp
      next
        case True
        from d qm(1) True Question_findById_distinct [OF store_inv_distinct(1) [OF inv]]
        have "d = qn" by (metis option.inject save_answer_simps(1))
        from Answer_findById_distinct [OF store_inv_distinct(2) [OF inv1] b(1)]
        have f1: "Answer_findById ?s1 (answer.x_id b) = Some b" .
        from store_inv_accepted [OF inv1 b(1) d b(2) [symmetric] b(3)] \<open>d = qn\<close> cur
        have "answer.x_id b = i" using ai by simp
        with f1 Answer_findById_save_loaded [OF 2(1) xi, of now i]
        have "b = after_save_answer ans (unacceptAnswer ans) now" by simp
        with b(3) have False by (simp add: unacceptAnswer_def)
        then show ?thesis ..
      qed
    qed
    then have "store_inv (save_question ?s1 qn ?qn1 now)" by (simp add: save_question_def)
    with 2(4) show ?thesis by simp
  qed
qed

lemma store_inv_cong:
  "questions s' = questions s \<Longrightarrow> answers s' = answers s \<Longrightarrow> store_inv s' = store_inv s"
  by (simp add: store_inv_def)

lemma ban_user_collections:
  "questions (fst (ban_user s i r now)) = questions s"
  "answers (fst (ban_user s i r now)) = answers s"
  "notifications (fst (ban_user s i r now)) = notifications s"
  by (simp_all add: ban_user_def save_user_def split: option.splits)

lemma store_inv_ban_user: "store_inv s \<Longrightarrow> store_inv (fst (ban_user s i r now))"
  by (simp add: store_inv_cong [OF ban_user_collections(1,2)])

theorem reachable_store_inv: "reachable s \<Longrightarrow> store_inv s"
proof (induction rule: reachable.induct)
  case (initial s)
  then show ?case by (simp add: store_inv_def)
next
  case (other_collections s us ns)
  then show ?case by (simp add: store_inv_other_collections)
qed (simp_all add: store_inv_post_question store_inv_put_question store_inv_delete_question
      store_inv_vote_question store_inv_incrementViews store_inv_post_answer
      store_inv_put_answer store_inv_delete_answer store_inv_vote_answer
      store_inv_accept_answer store_inv_unaccept_answer store_inv_ban_user)

section \<open>What a successful accept writes\<close>

lemma acceptAnswer_simps [simp]:
  "answer.x_id (acceptAnswer a uid now) = answer.x_id a"
  "answer.question (acceptAnswer a uid now) = answer.question a"
  "answer.author (acceptAnswer a uid now) = answer.author a"
  "answer.isDeleted (acceptAnswer a uid now) = answer.isDeleted a"
  "isAccepted (acceptAnswer a uid now) = True"
  "acceptedAt (acceptAnswer a uid now) = Some now"
  "acceptedBy (acceptAnswer a uid now) = Some uid"
  by (simp_all add: acceptAnswer_def)

lemma unacceptAnswer_simps [simp]:
  "answer.x_id (unacceptAnswer a) = answer.x_id a"
  "answer.question (unacceptAnswer a) = answer.question a"
  "answer.author (unacceptAnswer a) = answer.author a"
  "answer.isDeleted (unacceptAnswer a) = answer.isDeleted a"
  "isAccepted (unacceptAnswer a) = False"
  "acceptedAt (unacceptAnswer a) = None"
  "acceptedBy (unacceptAnswer a) = None"
  by (simp_all add: unacceptAnswer_def)

text \<open>
  The answer \<open>i\<close> is written on top of what the block left in the store: when \<open>i\<close>
  was the \<open>acceptedAnswer\<close> already, the handler holds the copy it loaded before the
  block unaccepted the stored one.
\<close>

lemma accept_answer_effect:
  assumes fa: "Answer_findById s i = Some ans" and nd: "\<not> answer.isDeleted ans"
    and fq: "Question_findById s (answer.question ans) = Some qn"
    and nq: "\<not> question.isDeleted qn" and au: "question.author qn = user.x_id u"
  shows "status_of (snd (accept_answer s u i now)) = 200"
    and "Answer_findById (fst (accept_answer s u i now)) j =
          map_option (\<lambda>d. if answer.x_id d = i
                            then write_answer ans (acceptAnswer ans (user.x_id u) now) d now
                            else d)
            (Answer_findById (unaccept_previous s qn now) j)"
    and "Question_findById (fst (accept_answer s u i now)) k =
          (if k = question.x_id qn
           then Some (after_save_question qn
                        (qn\<lparr>isAnswered := True, acceptedAnswer := Some i\<rparr>) now)
           else Question_findById s k)"
    and "notifications (fst (accept_answer s u i now)) =
          notifications s @
            (if answer.author ans \<noteq> user.x_id u
             then [\<lparr>recipient = answer.author ans, sender = Some (user.x_id u),
                    type = ''answer_accepted'', title = ''Answer accepted'',
                    message = ''Your answer to '' @ quote @ question.title qn @ quote
                      @ '' was accepted'',
                    relatedQuestion = Some (question.x_id qn), relatedAnswer = Some i,
                    relatedComment = None, isRead = False, readAt = None\<rparr>]
             else [])"
proof -
  from Answer_findById_mem [OF fa] have ai: "answer.x_id ans = i" by simp
  from Question_findById_mem [OF fq] have qi: "question.x_id qn = answer.question ans" by simp
  let ?s2 = "save_answer (unaccept_previous s qn now) ans
               (acceptAnswer ans (user.x_id u) now) now"
  let ?qn1 = "qn\<lparr>isAnswered := True, acceptedAnswer := Some i\<rparr>"
  let ?s3 = "save_question ?s2 qn ?qn1 now"
  let ?n = "\<lparr>recipient = answer.author ans, sender = Some (user.x_id u),
                    type = ''answer_accepted'', title = ''Answer accepted'',
                    message = ''Your answer to '' @ quote @ question.title qn @ quote
                      @ '' was accepted'',
                    relatedQuestion = Some (question.x_id qn), relatedAnswer = Some i,
                    relatedComment = None, isRead = False, readAt = None\<rparr>"
  have st: "fst (accept_answer s u i now) =
      (if answer.author ans \<noteq> user.x_id u then createNotification ?s3 ?n else ?s3)"
    and "status_of (snd (accept_answer s u i now)) = 200"
    using assms ai by (simp_all add: accept_answer_def Let_def)
  then show "status_of (snd (accept_answer s u i now)) = 200" by simp
  show "Answer_findById (fst (accept_answer s u i now)) j =
          map_option (\<lambda>d. if answer.x_id d = i
                            then write_answer ans (acceptAnswer ans (user.x_id u) now) d now
                            else d)
            (Answer_findById (unaccept_previous s qn now) j)"
    using ai by (simp add: st Answer_findById_save_answer)
  have fq2: "Question_findById ?s2 (question.x_id qn) = Some qn" using fq qi by simp
  have "question.x_id ?qn1 = question.x_id qn" by simp
  note e = Question_findById_save_loaded [OF fq2 this]
  show "Question_findById (fst (accept_answer s u i now)) k =
          (if k = question.x_id qn then Some (after_save_question qn ?qn1 now)
           else Question_findById s k)"
    by (simp add: st e)
  show "notifications (fst (accept_answer s u i now)) =
          notifications s @ (if answer.author ans \<noteq> user.x_id u then [?n] else [])"
    by (simp add: st createNotification_def)
qed

lemma distinct_all_same:
  "distinct ys \<Longrightarrow> \<forall>z \<in> set ys. z = y \<Longrightarrow> ys \<noteq> [] \<Longrightarrow> ys = [y]"
  by (cases ys; cases "tl ys") auto

lemma accept_answer_200:
  assumes "status_of (snd (accept_answer s u i now)) = 200"
  obtains ans qn where "Answer_findById s i = Some ans" "\<not> answer.isDeleted ans"
    "Question_findById s (answer.question ans) = Some qn" "\<not> question.isDeleted qn"
    "question.author qn = user.x_id u"
  using assms by (auto simp: accept_answer_def Let_def split: option.splits if_splits)

lemma notifications_unaccept_answer:
  "notifications (fst (unaccept_answer s u i now)) = notifications s"
  by (simp add: unaccept_answer_def Let_def split: option.splits)

section \<open>Posting an answer: the duplicate check\<close>

lemma post_answer_existing:
  assumes b: "b \<in> set (answers s)" "answer.question b = Q" "answer.author b = user.x_id u"
      "\<not> answer.isDeleted b"
  shows "fst (post_answer s u c (Some Q) i now) = s"
    and "status_of (snd (post_answer s u c (Some Q) i now)) \<noteq> 201"
proof -
  have "Answer_findOne s (\<lambda>a. answer.question a = Q \<and> answer.author a = user.x_id u
          \<and> answer.isDeleted a = False) \<noteq> None"
    using b by (auto simp: Answer_findOne_def find_None_iff2)
  then obtain e where e: "Answer_findOne s (\<lambda>a. answer.question a = Q
      \<and> answer.author a = user.x_id u \<and> answer.isDeleted a = False) = Some e" by blast
  from e show "fst (post_answer s u c (Some Q) i now) = s"
    "status_of (snd (post_answer s u c (Some Q) i now)) \<noteq> 201"
    by (simp_all add: post_answer_def Let_def split: option.splits)
qed

lemma post_answer_conflict:
  assumes fq: "Question_findById s Q = Some q" and nq: "\<not> question.isDeleted q"
    and b: "b \<in> set (answers s)" "answer.question b = Q" "answer.author b = user.x_id u"
      "\<not> answer.isDeleted b"
  shows "fst (post_answer s u c (Some Q) i now) = s"
    and "status_of (snd (post_answer s u c (Some Q) i now)) = 400"
    and "20 \<le> length c \<Longrightarrow> snd (post_answer s u c (Some Q) i now) =
           Response 400 (Message ''You have already answered this question'')"
proof -
  have "Answer_findOne s (\<lambda>a. answer.question a = Q \<and> answer.author a = user.x_id u
          \<and> answer.isDeleted a = False) \<noteq> None"
    using b by (auto simp: Answer_findOne_def find_None_iff2)
  then obtain e where e: "Answer_findOne s (\<lambda>a. answer.question a = Q
      \<and> answer.author a = user.x_id u \<and> answer.isDeleted a = False) = Some e" by blast
  from fq nq e show "fst (post_answer s u c (Some Q) i now) = s"
    "status_of (snd (post_answer s u c (Some Q) i now)) = 400"
    by (simp_all add: post_answer_def Let_def)
  assume "20 \<le> length c"
  with fq nq e show "snd (post_answer s u c (Some Q) i now) =
           Response 400 (Message ''You have already answered this question'')"
    by (simp add: post_answer_def Let_def post_answer_errors_def)
qed

lemma post_answer_created:
  assumes fq: "Question_findById s Q = Some q" and nq: "\<not> question.isDeleted q"
    and none: "\<forall>a \<in> set (answers s). answer.question a = Q \<and> answer.author a = user.x_id u
                 \<longrightarrow> answer.isDeleted a"
    and len: "20 \<le> length c" and fresh: "i \<notin> set (map answer.x_id (answers s))"
  shows "snd (post_answer s u c (Some Q) i now) =
           Response 201 (MessageAnswer ''Answer posted successfully''
                           (AnswerView (new_Answer i c Q (user.x_id u) now) 0 None))"
    and "answers (fst (post_answer s u c (Some Q) i now)) =
           answers s @ [new_Answer i c Q (user.x_id u) now]"
proof -
  have e: "Answer_findOne s (\<lambda>a. answer.question a = Q \<and> answer.author a = user.x_id u
          \<and> answer.isDeleted a = False) = None"
    using none by (auto simp: Answer_findOne_def find_None_iff2)
  have ins: "insert_answer s (new_Answer i c Q (user.x_id u) now) =
      Some (s\<lparr>answers := answers s @ [new_Answer i c Q (user.x_id u) now]\<rparr>)"
    using fresh by (simp add: insert_answer_def new_Answer_def)
  from fq nq e ins len show "snd (post_answer s u c (Some Q) i now) =
           Response 201 (MessageAnswer ''Answer posted successfully''
                           (AnswerView (new_Answer i c Q (user.x_id u) now) 0 None))"
    "answers (fst (post_answer s u c (Some Q) i now)) =
           answers s @ [new_Answer i c Q (user.x_id u) now]"
    by (simp_all add: post_answer_def Let_def post_answer_errors_def)
qed

section \<open>Users; the arithmetic of pages\<close>

lemma User_findById_mem:
  "User_findById s i = Some u \<Longrightarrow> u \<in> set (users s) \<and> user.x_id u = i"
  unfolding User_findById_def by (drule find_Some_mem) simp

lemma User_findById_save_user:
  "User_findById (save_user s l h now) i =
     map_option (\<lambda>d. if user.x_id d = user.x_id h then write_user l h d now else d)
       (User_findById s i)"
  unfolding User_findById_def save_user_def
  by (simp add: find_map_key [where f = user.x_id])

lemma User_findById_save_loaded:
  assumes "User_findById s i = Some l" and "user.x_id h = user.x_id l"
  shows "User_findById (save_user s l h now) j =
           (if j = i then Some (after_save_user l h now) else User_findById s j)"
proof (cases "User_findById s j")
  case None
  with assms show ?thesis by (auto simp: User_findById_save_user)
next
  case (Some d)
  from User_findById_mem [OF Some] User_findById_mem [OF assms(1)]
  have "user.x_id d = j" "user.x_id l = i" by simp_all
  with Some assms show ?thesis
    by (auto simp: User_findById_save_user write_user_same)
qed

text \<open>A ban writes nothing when the target is banned for the same reason already.\<close>

lemma after_save_user_ban:
  "after_save_user t (t\<lparr>isBanned := True, banReason := r\<rparr>) now =
     (if isBanned t \<and> banReason t = r then t
      else t\<lparr>isBanned := True, banReason := r, user.updatedAt := now\<rparr>)"
  by (cases t) (auto simp: after_save_user_def)

lemma less_ceiling_div:
  fixes p n l :: int
  assumes "0 < l"
  shows "p < \<lceil>real_of_int n / real_of_int l\<rceil> \<longleftrightarrow> p * l < n"
proof -
  have "p < \<lceil>real_of_int n / real_of_int l\<rceil> \<longleftrightarrow> real_of_int p < real_of_int n / real_of_int l"
    by (rule less_ceiling_iff)
  also have "\<dots> \<longleftrightarrow> real_of_int p * real_of_int l < real_of_int n"
    using assms by (simp add: pos_less_divide_eq)
  also have "\<dots> \<longleftrightarrow> p * l < n"
    by (metis of_int_less_iff of_int_mult)
  finally show ?thesis .
qed

lemma ceiling_div_pos:
  fixes n l :: int
  assumes l: "0 < l"
  shows "\<lceil>real_of_int n / real_of_int l\<rceil> = (n + l - 1) div l"
proof -
  define z where "z = (n + l - 1) div l"
  have eq: "n + l - 1 = z * l + (n + l - 1) mod l"
    unfolding z_def by simp
  have m: "0 \<le> (n + l - 1) mod l" "(n + l - 1) mod l < l"
    using l by simp_all
  from eq m have A: "\<not> z * l < n" by linarith
  have "(z - 1) * l = z * l - l" by (simp add: algebra_simps)
  with eq m have B: "(z - 1) * l < n" by linarith
  from A have "\<not> z < \<lceil>real_of_int n / real_of_int l\<rceil>"
    by (simp add: less_ceiling_div [OF l])
  moreover from B have "z - 1 < \<lceil>real_of_int n / real_of_int l\<rceil>"
    by (simp add: less_ceiling_div [OF l])
  ultimately show ?thesis unfolding z_def by linarith
qed

section \<open>The small forum: its stores\<close>

lemma reachable_store3: "reachable store3"
  unfolding store3_def store2_def store1_def
  by (intro reachable.r_post_answer reachable.r_post_question reachable.initial)
     (simp_all add: store0_def)

lemma store3_answers:
  "Answer_findById store3 20 = Some (new_Answer 20 demo_content 10 2 200)"
  "Answer_findById store3 21 = Some (new_Answer 21 demo_content 10 3 300)"
  by code_simp+

lemma store3_question:
  "Question_findById store3 10 =
     Some (new_Question 10 demo_title demo_description [''css'', ''html''] 1 100)"
  by code_simp




lemma store3_answers_list:
  "answers store3 = [new_Answer 20 demo_content 10 2 200, new_Answer 21 demo_content 10 3 300]"
  by code_simp

lemma demo_content_length: "20 \<le> length demo_content"
  by (simp add: demo_content_def)

lemma store5_answers_list:
  "answers store5 =
     [(new_Answer 20 demo_content 10 2 200)
        \<lparr>answer.isDeleted := True, answer.deletedBy := Some 2, answer.deletedAt := Some 450,
         answer.deleteReason := Some ''No reason provided'', answer.updatedAt := 450\<rparr>,
      new_Answer 21 demo_content 10 3 300]"
  by code_simp

lemma store5_question:
  "Question_findById store5 10 =
     Some (new_Question 10 demo_title demo_description [''css'', ''html''] 1 100)"
  by code_simp

lemma store3_users: "User_findById store3 2 = Some bob" "User_findById store3 9 = Some root"
  "User_findById store3 77 = None"
  by code_simp+

lemma store6_count:
  "int (length (filter (matches_filter (\<lambda>x q. True) (or_default None ''newest'') None None)
                  (questions store6))) = 3"
  by code_simp

text \<open>
  Accepting again the answer that is accepted: the stored copy is unaccepted by the
  block, and the copy the handler holds, where only \<open>acceptedAt\<close> changes, writes that
  one field. The question is not written. A following unaccept is refused.
\<close>

lemma accept_accepted_again:
  "status_of (snd (accept_answer store4 alice 20 500)) = 200"
  "Answer_findById (fst (accept_answer store4 alice 20 500)) 20 =
     Some ((new_Answer 20 demo_content 10 2 200)
             \<lparr>isAccepted := False, acceptedAt := Some 500, acceptedBy := None,
              answer.updatedAt := 500\<rparr>)"
  "Question_findById (fst (accept_answer store4 alice 20 500)) 10 =
     Some ((new_Question 10 demo_title demo_description [''css'', ''html''] 1 100)
             \<lparr>isAnswered := True, acceptedAnswer := Some 20, question.updatedAt := 400\<rparr>)"
  "snd (unaccept_answer (fst (accept_answer store4 alice 20 500)) alice 20 600) =
     Response 400 (Message ''This answer is not accepted'')"
  by code_simp+

lemma store7_answers:
  "Answer_findById store7 20 =
     Some ((new_Answer 20 demo_content 10 2 200)
             \<lparr>isAccepted := False, acceptedAt := None, acceptedBy := None,
              answer.updatedAt := 500\<rparr>)"
  "Answer_findById store7 21 =
     Some ((new_Answer 21 demo_content 10 3 300)
             \<lparr>isAccepted := True, acceptedAt := Some 500, acceptedBy := Some 1,
              answer.updatedAt := 500\<rparr>)"
  by code_simp+

lemma store7_question:
  "Question_findById store7 10 =
     Some ((new_Question 10 demo_title demo_description [''css'', ''html''] 1 100)
             \<lparr>isAnswered := True, acceptedAnswer := Some 20, question.updatedAt := 400\<rparr>)"
  by code_simp


section \<open>The claims\<close>

subsection \<open>The vote ledger\<close>

text \<open>
  C2. For a question, an answer and a comment alike, the derived vote count is the
  number of upvote entries minus the number of downvote entries, and no voter id is in
  both the upvotes and the downvotes: this holds of the ledger of a new document (both
  arrays empty, count 0, as \<open>new Question\<close> and \<open>new Answer\<close> create it), and
  \<open>addVote\<close> and \<open>removeVote\<close> of every schema keep it, for every voter, vote type
  and time.
\<close>

theorem vote_ledger_invariant:
  "voteCount new_ledger = 0 \<and> exclusive new_ledger
   \<and> question.votes (new_Question i t d ts u now) = new_ledger
   \<and> answer.votes (new_Answer i t j u now) = new_ledger
   \<and> questionSchema_voteCount q =
        int (length (upvotes (question.votes q))) - int (length (downvotes (question.votes q)))
   \<and> answerSchema_voteCount a =
        int (length (upvotes (answer.votes a))) - int (length (downvotes (answer.votes a)))
   \<and> commentSchema_voteCount c =
        int (length (upvotes (comment.votes c))) - int (length (downvotes (comment.votes c)))
   \<and> (exclusive (question.votes q) \<longrightarrow>
          exclusive (question.votes (questionSchema_addVote q v voteType now))
          \<and> exclusive (question.votes (questionSchema_removeVote q v)))
   \<and> (exclusive (answer.votes a) \<longrightarrow>
          exclusive (answer.votes (answerSchema_addVote a v voteType now))
          \<and> exclusive (answer.votes (answerSchema_removeVote a v)))
   \<and> (exclusive (comment.votes c) \<longrightarrow>
          exclusive (comment.votes (commentSchema_addVote c v voteType now))
          \<and> exclusive (comment.votes (commentSchema_removeVote c v)))"
proof -
  have "voteCount new_ledger = 0"
    by (simp add: voteCount_def new_ledger_def)
  moreover have "question.votes (new_Question i t d ts u now) = new_ledger"
    "answer.votes (new_Answer i t j u now) = new_ledger"
    by (simp_all add: new_Question_def new_Answer_def)
  ultimately show ?thesis
    by (simp add: exclusive_new exclusive_addVote exclusive_removeVote
        questionSchema_voteCount_def answerSchema_voteCount_def commentSchema_voteCount_def
        questionSchema_addVote_def answerSchema_addVote_def commentSchema_addVote_def
        questionSchema_removeVote_def answerSchema_removeVote_def
        commentSchema_removeVote_def voteCount_def)
qed

theorem vote_ledger_invariant_witness:
  "exclusive (question.votes demo_question) \<and> exclusive (answer.votes demo_answer)
   \<and> exclusive (comment.votes demo_comment)
   \<and> questionSchema_voteCount demo_question = 1
   \<and> exclusive (question.votes (questionSchema_addVote demo_question 3 ''upvote'' 80))
   \<and> exclusive (answer.votes (answerSchema_addVote demo_answer 3 ''upvote'' 80))
   \<and> exclusive (comment.votes (commentSchema_removeVote demo_comment 3))"
proof -
  have l: "exclusive demo_ledger"
    by (simp add: exclusive_def demo_ledger_def upvoters_def downvoters_def)
  have v: "question.votes demo_question = demo_ledger" "answer.votes demo_answer = demo_ledger"
    "comment.votes demo_comment = demo_ledger"
    by (simp_all add: demo_question_def demo_answer_def demo_comment_def)
  have n: "int (length (upvotes demo_ledger)) - int (length (downvotes demo_ledger)) = 1"
    by (simp add: demo_ledger_def)
  from vote_ledger_invariant [of 0 "[]" "[]" "[]" 0 80 0 demo_question demo_answer demo_comment
      3 "''upvote''"] l v n
  show ?thesis by simp
qed

text \<open>
  C3. For every ledger, voter \<open>v\<close> and direction \<open>d\<close> among \<open>upvote\<close> and
  \<open>downvote\<close>: \<open>addVote\<close> (of the question and of the answer schema) removes every
  entry of \<open>v\<close> from both arrays and appends one entry of \<open>v\<close> to the array of
  \<open>d\<close>, so \<open>v\<close> then has exactly one entry, on the side of \<open>d\<close>; voting the same
  way again leaves the voters of both arrays as they are; and an upvote followed by a
  downvote leaves \<open>v\<close> with no entry in the upvotes and exactly one in the downvotes.
\<close>

theorem addVote_replaces:
  assumes "d = ''upvote'' \<or> d = ''downvote''"
  shows "question.votes (questionSchema_addVote q v d now) = addVote (question.votes q) v d now
    \<and> answer.votes (answerSchema_addVote a v d now) = addVote (answer.votes a) v d now
    \<and> upvoters (addVote vs v d now) =
         filter (\<lambda>w. w \<noteq> v) (upvoters vs) @ (if d = ''upvote'' then [v] else [])
    \<and> downvoters (addVote vs v d now) =
         filter (\<lambda>w. w \<noteq> v) (downvoters vs) @ (if d = ''downvote'' then [v] else [])
    \<and> count_list (upvoters (addVote vs v d now)) v = (if d = ''upvote'' then 1 else 0)
    \<and> count_list (downvoters (addVote vs v d now)) v = (if d = ''downvote'' then 1 else 0)
    \<and> upvoters (addVote (addVote vs v d now) v d now') = upvoters (addVote vs v d now)
    \<and> downvoters (addVote (addVote vs v d now) v d now') = downvoters (addVote vs v d now)
    \<and> count_list (upvoters (addVote (addVote vs v ''upvote'' now) v ''downvote'' now')) v = 0
    \<and> count_list (downvoters (addVote (addVote vs v ''upvote'' now) v ''downvote'' now')) v = 1"
  using assms
  by (auto simp: upvoters_addVote downvoters_addVote count_list_filter_neq
      questionSchema_addVote_def answerSchema_addVote_def)

theorem addVote_replaces_witness:
  "upvoters demo_ledger = [2, 4] \<and> downvoters demo_ledger = [3]
   \<and> upvoters (addVote demo_ledger 2 ''downvote'' 90) = [4]
   \<and> downvoters (addVote demo_ledger 2 ''downvote'' 90) = [3, 2]
   \<and> count_list (downvoters (addVote demo_ledger 2 ''downvote'' 90)) 2 = 1
   \<and> downvoters (addVote (addVote demo_ledger 2 ''downvote'' 90) 2 ''downvote'' 95) = [3, 2]"
proof -
  have d: "upvoters demo_ledger = [2, 4]" "downvoters demo_ledger = [3]"
    by (simp_all add: demo_ledger_def upvoters_def downvoters_def)
  from addVote_replaces [of "''downvote''" demo_question 2 90 demo_answer demo_ledger 95] d
  show ?thesis by simp
qed

subsection \<open>The acceptance protocol\<close>

text \<open>
  C1. In a store that the handlers can produce, let \<open>A1\<close> and \<open>A2\<close> be two
  different answers of the question \<open>Q\<close>, neither of them soft-deleted, and let
  \<open>u\<close> be the author of \<open>Q\<close> (which is not soft-deleted, so that the accepts are
  performed). After \<open>accept A1\<close> and then \<open>accept A2\<close> by \<open>u\<close>, both answered
  200: exactly one answer of \<open>Q\<close> has \<open>isAccepted\<close>, and it is \<open>A2\<close> (accepted at
  the time of the second request, by \<open>u\<close>); \<open>A1\<close> has \<open>isAccepted = false\<close> and
  its \<open>acceptedAt\<close> and \<open>acceptedBy\<close> are cleared; \<open>Q.acceptedAnswer\<close> is
  \<open>A2\<close> and \<open>Q.isAnswered\<close> is true.
\<close>

theorem accept_twice:
  assumes r: "reachable s"
    and a1: "Answer_findById s A1 = Some a1" and a2: "Answer_findById s A2 = Some a2"
    and ne: "A1 \<noteq> A2"
    and d1: "\<not> answer.isDeleted a1" and d2: "\<not> answer.isDeleted a2"
    and q1: "answer.question a1 = Q" and q2: "answer.question a2 = Q"
    and fq: "Question_findById s Q = Some q" and dq: "\<not> question.isDeleted q"
    and au: "question.author q = user.x_id u"
  shows "let r1 = accept_answer s u A1 t1; r2 = accept_answer (fst r1) u A2 t2; s2 = fst r2
         in status_of (snd r1) = 200 \<and> status_of (snd r2) = 200
            \<and> map answer.x_id (filter (\<lambda>b. answer.question b = Q \<and> isAccepted b) (answers s2))
                = [A2]
            \<and> (\<exists>b. Answer_findById s2 A2 = Some b \<and> isAccepted b
                     \<and> acceptedAt b = Some t2 \<and> acceptedBy b = Some (user.x_id u))
            \<and> (\<exists>b. Answer_findById s2 A1 = Some b \<and> \<not> isAccepted b
                     \<and> acceptedAt b = None \<and> acceptedBy b = None)
            \<and> (\<exists>p. Question_findById s2 Q = Some p \<and> acceptedAnswer p = Some A2
                     \<and> isAnswered p)"
proof -
  let ?s1 = "fst (accept_answer s u A1 t1)"
  let ?s2 = "fst (accept_answer ?s1 u A2 t2)"
  from Question_findById_mem [OF fq] have qi: "question.x_id q = Q" by simp
  from Answer_findById_mem [OF a2] have a2i: "answer.x_id a2 = A2" by simp
  note e1 = accept_answer_effect [OF a1 d1 fq [folded q1] dq au, of t1]
  define b2 where "b2 = (if acceptedAnswer q = Some A2
                         then after_save_answer a2 (unacceptAnswer a2) t1 else a2)"
  define p1 where "p1 = after_save_question q
                          (q\<lparr>isAnswered := True, acceptedAnswer := Some A1\<rparr>) t1"
  have b2p: "\<not> answer.isDeleted b2" "answer.question b2 = Q" "answer.x_id b2 = A2"
    using d2 q2 a2i by (simp_all add: b2_def)
  have "Answer_findById (unaccept_previous s q t1) A2 = Some b2"
    using a2 by (simp add: Answer_findById_unaccept_previous b2_def)
  then have f2: "Answer_findById ?s1 A2 = Some b2"
    using ne b2p(3) by (simp add: e1(2))
  have "\<exists>d. Answer_findById (unaccept_previous s q t1) A1 = Some d"
    using a1 by (simp add: Answer_findById_unaccept_previous)
  then obtain b1 where f1: "Answer_findById ?s1 A1 = Some b1"
    by (auto simp: e1(2))
  from Answer_findById_mem [OF f1] have b1i: "answer.x_id b1 = A1" by simp
  have fq1: "Question_findById ?s1 Q = Some p1"
    using qi by (simp add: e1(3) p1_def)
  have p1p: "\<not> question.isDeleted p1" "question.author p1 = user.x_id u"
    "acceptedAnswer p1 = Some A1" "question.x_id p1 = Q"
    using dq au qi by (simp_all add: p1_def)
  note e2 = accept_answer_effect [OF f2 b2p(1) fq1 [folded b2p(2)] p1p(1,2), of t2]
  define c2 where "c2 = after_save_answer b2 (acceptAnswer b2 (user.x_id u) t2) t2"
  define c1 where "c1 = after_save_answer b1 (unacceptAnswer b1) t2"
  define p2 where "p2 = after_save_question p1
                          (p1\<lparr>isAnswered := True, acceptedAnswer := Some A2\<rparr>) t2"
  have "Answer_findById (unaccept_previous ?s1 p1 t2) A2 = Some b2"
    using f2 p1p(3) ne by (simp add: Answer_findById_unaccept_previous)
  then have g2: "Answer_findById ?s2 A2 = Some c2"
    using b2p(3) by (simp add: e2(2) write_answer_same c2_def)
  have "Answer_findById (unaccept_previous ?s1 p1 t2) A1 = Some c1"
    using f1 p1p(3) by (simp add: Answer_findById_unaccept_previous c1_def)
  then have g1: "Answer_findById ?s2 A1 = Some c1"
    using ne b1i by (simp add: e2(2) c1_def)
  have gq: "Question_findById ?s2 Q = Some p2"
    using p1p(4) by (simp add: e2(3) p2_def)
  have c2p: "isAccepted c2" "acceptedAt c2 = Some t2" "acceptedBy c2 = Some (user.x_id u)"
    "answer.question c2 = Q"
    using b2p(2) by (simp_all add: c2_def)
  have c1p: "\<not> isAccepted c1" "acceptedAt c1 = None" "acceptedBy c1 = None"
    by (simp_all add: c1_def)
  have p2p: "acceptedAnswer p2 = Some A2" "isAnswered p2" "question.x_id p2 = Q"
    using p1p(4) by (simp_all add: p2_def)
  have inv2: "store_inv ?s2"
    by (intro reachable_store_inv reachable.r_accept_answer r)
  let ?acc = "filter (\<lambda>b. answer.question b = Q \<and> isAccepted b) (answers ?s2)"
  have only: "map answer.x_id ?acc = [A2]"
  proof (rule distinct_all_same)
    show "distinct (map answer.x_id ?acc)"
      using store_inv_distinct(2) [OF inv2] by (rule distinct_map_filter)
    show "\<forall>z \<in> set (map answer.x_id ?acc). z = A2"
    proof
      fix z assume "z \<in> set (map answer.x_id ?acc)"
      then obtain b where b: "b \<in> set (answers ?s2)" "answer.question b = Q" "isAccepted b"
        "z = answer.x_id b" by auto
      from Question_findById_mem [OF gq] have pm: "p2 \<in> set (questions ?s2)" by simp
      from store_inv_accepted [OF inv2 b(1) pm] b(2,3) p2p have "A2 = answer.x_id b" by simp
      with b(4) show "z = A2" by simp
    qed
    from Answer_findById_mem [OF g2] c2p have "c2 \<in> set ?acc" by simp
    from length_pos_if_in_set [OF this] show "map answer.x_id ?acc \<noteq> []" by simp
  qed
  have k2: "\<exists>b. Answer_findById ?s2 A2 = Some b \<and> isAccepted b
                     \<and> acceptedAt b = Some t2 \<and> acceptedBy b = Some (user.x_id u)"
    using c2p by (simp add: g2)
  have k1: "\<exists>b. Answer_findById ?s2 A1 = Some b \<and> \<not> isAccepted b
                     \<and> acceptedAt b = None \<and> acceptedBy b = None"
    using c1p by (simp add: g1)
  have kq: "\<exists>p. Question_findById ?s2 Q = Some p \<and> acceptedAnswer p = Some A2
                     \<and> isAnswered p"
    using p2p by (simp add: gq)
  from e1(1) e2(1) only k2 k1 kq show ?thesis
    unfolding Let_def by (intro conjI)
qed

theorem accept_twice_witness:
  "reachable store3
   \<and> Answer_findById store3 20 = Some (new_Answer 20 demo_content 10 2 200)
   \<and> Answer_findById store3 21 = Some (new_Answer 21 demo_content 10 3 300)
   \<and> Question_findById store3 10 =
       Some (new_Question 10 demo_title demo_description [''css'', ''html''] 1 100)
   \<and> (let r1 = accept_answer store3 alice 20 400; r2 = accept_answer (fst r1) alice 21 500;
           s2 = fst r2
       in status_of (snd r1) = 200 \<and> status_of (snd r2) = 200
          \<and> map answer.x_id (filter (\<lambda>b. answer.question b = 10 \<and> isAccepted b) (answers s2))
              = [21]
          \<and> (\<exists>b. Answer_findById s2 21 = Some b \<and> isAccepted b
                   \<and> acceptedAt b = Some 500 \<and> acceptedBy b = Some (user.x_id alice))
          \<and> (\<exists>b. Answer_findById s2 20 = Some b \<and> \<not> isAccepted b
                   \<and> acceptedAt b = None \<and> acceptedBy b = None)
          \<and> (\<exists>p. Question_findById s2 10 = Some p \<and> acceptedAnswer p = Some 21
                   \<and> isAnswered p))"
proof -
  have h: "\<not> answer.isDeleted (new_Answer 20 demo_content 10 2 200)"
    "\<not> answer.isDeleted (new_Answer 21 demo_content 10 3 300)"
    "answer.question (new_Answer 20 demo_content 10 2 200) = 10"
    "answer.question (new_Answer 21 demo_content 10 3 300) = 10"
    "\<not> question.isDeleted (new_Question 10 demo_title demo_description [''css'', ''html''] 1 100)"
    "question.author (new_Question 10 demo_title demo_description [''css'', ''html''] 1 100)
       = user.x_id alice"
    by (simp_all add: new_Answer_def new_Question_def alice_def)
  have ne: "(20::nat) \<noteq> 21" by simp
  from accept_twice [OF reachable_store3 store3_answers ne h(1,2,3,4) store3_question h(5,6),
      of 400 500]
    reachable_store3 store3_answers store3_question
  show ?thesis by simp
qed




subsection \<open>Notifications of the acceptance protocol\<close>

text \<open>
  C5, as the claim states it, fails for unaccept: alice has accepted bob's answer 20 to
  her question; she unaccepts it; the request answers 200, the requester (1) is not the
  author of the answer (2), and the notifications are the ones there were before.
\<close>

theorem unaccept_silent_counterexample:
  "status_of (snd (unaccept_answer store4 alice 20 600)) = 200
   \<and> map_option answer.author (Answer_findById store4 20) = Some 2
   \<and> user.x_id alice = 1
   \<and> notifications (fst (unaccept_answer store4 alice 20 600)) = notifications store4"
  by code_simp

text \<open>
  C5, amended. A successful accept of the answer \<open>A\<close> (status 200) appends exactly
  one notification when the requester is not the author of \<open>A\<close>: its recipient is the
  author of \<open>A\<close>, its sender the requester, its type \<open>answer_accepted\<close>, its
  \<open>relatedAnswer\<close> is \<open>A\<close>, and it is unread; when the requester is the author of
  \<open>A\<close>, no notification is created. An unaccept request, successful or not, never
  creates a notification.
\<close>

theorem accept_notifies:
  assumes fa: "Answer_findById s i = Some ans"
    and ok: "status_of (snd (accept_answer s u i now)) = 200"
  shows "(answer.author ans = user.x_id u \<longrightarrow>
            notifications (fst (accept_answer s u i now)) = notifications s)
    \<and> (answer.author ans \<noteq> user.x_id u \<longrightarrow>
          (\<exists>n. notifications (fst (accept_answer s u i now)) = notifications s @ [n]
               \<and> recipient n = answer.author ans \<and> sender n = Some (user.x_id u)
               \<and> type n = ''answer_accepted'' \<and> relatedAnswer n = Some i \<and> \<not> isRead n))
    \<and> notifications (fst (unaccept_answer s' u' i' now')) = notifications s'"
proof -
  from ok obtain ans' qn where p: "Answer_findById s i = Some ans'" "\<not> answer.isDeleted ans'"
    "Question_findById s (answer.question ans') = Some qn" "\<not> question.isDeleted qn"
    "question.author qn = user.x_id u"
    by (rule accept_answer_200)
  with fa have [simp]: "ans' = ans" by simp
  from accept_answer_effect(4) [OF p, of now] show ?thesis
    by (simp add: notifications_unaccept_answer)
qed

theorem accept_notifies_witness:
  "Answer_findById store3 20 = Some (new_Answer 20 demo_content 10 2 200)
   \<and> status_of (snd (accept_answer store3 alice 20 400)) = 200
   \<and> answer.author (new_Answer 20 demo_content 10 2 200) \<noteq> user.x_id alice
   \<and> (\<exists>n. notifications (fst (accept_answer store3 alice 20 400)) = notifications store3 @ [n]
          \<and> recipient n = 2 \<and> sender n = Some 1 \<and> type n = ''answer_accepted''
          \<and> relatedAnswer n = Some 20 \<and> \<not> isRead n)"
proof -
  have ok: "status_of (snd (accept_answer store3 alice 20 400)) = 200" by code_simp
  have a: "answer.author (new_Answer 20 demo_content 10 2 200) = 2" "user.x_id alice = 1"
    by (simp_all add: new_Answer_def alice_def)
  from accept_notifies [OF store3_answers(1) ok] a store3_answers(1) ok
  show ?thesis by simp
qed

subsection \<open>One answer per author and question\<close>

text \<open>
  C6. In a store that the handlers can produce: if the user \<open>u\<close> has an answer
  \<open>b\<close> to the question \<open>Q\<close> that is not deleted, \<open>POST /answers\<close> by \<open>u\<close>
  with \<open>questionId = Q\<close> creates nothing (the store is unchanged, the status is not
  201), and the answers of \<open>u\<close> to \<open>Q\<close> that are not deleted are exactly one,
  \<open>b\<close>; when \<open>Q\<close> is not soft-deleted (a soft-deleted question is answered as
  not found) the status is 400, and with a content that passes validation
  (20 characters) the body is \<open>You have already answered this question\<close>. If \<open>u\<close>
  has no answer to a question \<open>Q\<close> that is not soft-deleted, the content passes
  validation and the generated id is new, the request answers 201 with the created
  answer, which is appended to the collection.
\<close>

theorem post_answer_second_rejected:
  assumes r: "reachable s"
  shows "(b \<in> set (answers s) \<and> answer.question b = Q \<and> answer.author b = user.x_id u
           \<and> \<not> answer.isDeleted b \<longrightarrow>
            fst (post_answer s u c (Some Q) i now) = s
            \<and> status_of (snd (post_answer s u c (Some Q) i now)) \<noteq> 201
            \<and> (Question_findById s Q = Some q \<and> \<not> question.isDeleted q \<longrightarrow>
                  status_of (snd (post_answer s u c (Some Q) i now)) = 400
                  \<and> (20 \<le> length c \<longrightarrow> snd (post_answer s u c (Some Q) i now) =
                        Response 400 (Message ''You have already answered this question'')))
            \<and> map answer.x_id
                 (filter (\<lambda>a. answer.question a = Q \<and> answer.author a = user.x_id u
                             \<and> \<not> answer.isDeleted a)
                    (answers (fst (post_answer s u c (Some Q) i now)))) = [answer.x_id b])
    \<and> (Question_findById s Q = Some q \<and> \<not> question.isDeleted q
         \<and> (\<forall>a \<in> set (answers s). \<not> (answer.question a = Q \<and> answer.author a = user.x_id u))
         \<and> 20 \<le> length c \<and> i \<notin> set (map answer.x_id (answers s)) \<longrightarrow>
            snd (post_answer s u c (Some Q) i now) =
              Response 201 (MessageAnswer ''Answer posted successfully''
                              (AnswerView (new_Answer i c Q (user.x_id u) now) 0 None))
            \<and> answers (fst (post_answer s u c (Some Q) i now)) =
                 answers s @ [new_Answer i c Q (user.x_id u) now])"
proof (intro conjI impI)
  assume h: "b \<in> set (answers s) \<and> answer.question b = Q \<and> answer.author b = user.x_id u
           \<and> \<not> answer.isDeleted b"
  then have b: "b \<in> set (answers s)" "answer.question b = Q" "answer.author b = user.x_id u"
      "\<not> answer.isDeleted b" by simp_all
  note e = post_answer_existing [OF b]
  show "fst (post_answer s u c (Some Q) i now) = s" by (rule e(1))
  show "status_of (snd (post_answer s u c (Some Q) i now)) \<noteq> 201" by (rule e(2))
  {
    assume "Question_findById s Q = Some q \<and> \<not> question.isDeleted q"
    then have fq: "Question_findById s Q = Some q" and nq: "\<not> question.isDeleted q"
      by simp_all
    show "status_of (snd (post_answer s u c (Some Q) i now)) = 400"
      by (rule post_answer_conflict(2) [OF fq nq b])
    assume "20 \<le> length c"
    then show "snd (post_answer s u c (Some Q) i now) =
                  Response 400 (Message ''You have already answered this question'')"
      by (rule post_answer_conflict(3) [OF fq nq b])
  }
  let ?mine = "filter (\<lambda>a. answer.question a = Q \<and> answer.author a = user.x_id u
                             \<and> \<not> answer.isDeleted a) (answers s)"
  have inv: "store_inv s" by (rule reachable_store_inv [OF r])
  have "map answer.x_id ?mine = [answer.x_id b]"
  proof (rule distinct_all_same)
    show "distinct (map answer.x_id ?mine)"
      using store_inv_distinct(2) [OF inv] by (rule distinct_map_filter)
    show "\<forall>z \<in> set (map answer.x_id ?mine). z = answer.x_id b"
    proof
      fix z assume "z \<in> set (map answer.x_id ?mine)"
      then obtain a where a: "a \<in> set (answers s)" "answer.question a = Q"
        "answer.author a = user.x_id u" "\<not> answer.isDeleted a" "z = answer.x_id a" by auto
      from store_inv_one_answer [OF inv a(1) b(1)] a b show "z = answer.x_id b" by simp
    qed
    from b have "b \<in> set ?mine" by simp
    from length_pos_if_in_set [OF this] show "map answer.x_id ?mine \<noteq> []" by simp
  qed
  then show "map answer.x_id
                 (filter (\<lambda>a. answer.question a = Q \<and> answer.author a = user.x_id u
                             \<and> \<not> answer.isDeleted a)
                    (answers (fst (post_answer s u c (Some Q) i now)))) = [answer.x_id b]"
    by (simp only: e(1))
next
  assume h: "Question_findById s Q = Some q \<and> \<not> question.isDeleted q
         \<and> (\<forall>a \<in> set (answers s). \<not> (answer.question a = Q \<and> answer.author a = user.x_id u))
         \<and> 20 \<le> length c \<and> i \<notin> set (map answer.x_id (answers s))"
  then have fq: "Question_findById s Q = Some q" and nq: "\<not> question.isDeleted q"
    by simp_all
  from h have none: "\<forall>a \<in> set (answers s). answer.question a = Q
      \<and> answer.author a = user.x_id u \<longrightarrow> answer.isDeleted a" by blast
  from h have l: "20 \<le> length c" "i \<notin> set (map answer.x_id (answers s))" by simp_all
  note c = post_answer_created [OF fq nq none l]
  show "snd (post_answer s u c (Some Q) i now) =
              Response 201 (MessageAnswer ''Answer posted successfully''
                              (AnswerView (new_Answer i c Q (user.x_id u) now) 0 None))"
    by (rule c(1))
  show "answers (fst (post_answer s u c (Some Q) i now)) =
                 answers s @ [new_Answer i c Q (user.x_id u) now]"
    by (rule c(2))
qed

theorem post_answer_second_rejected_witness:
  "reachable store3
   \<and> Question_findById store3 10 =
       Some (new_Question 10 demo_title demo_description [''css'', ''html''] 1 100)
   \<and> new_Answer 20 demo_content 10 2 200 \<in> set (answers store3)
   \<and> user.x_id bob = 2 \<and> 20 \<le> length demo_content
   \<and> post_answer store3 bob demo_content (Some 10) 22 700 =
       (store3, Response 400 (Message ''You have already answered this question''))
   \<and> map answer.x_id
        (filter (\<lambda>a. answer.question a = 10 \<and> answer.author a = user.x_id bob
                    \<and> \<not> answer.isDeleted a)
           (answers (fst (post_answer store3 bob demo_content (Some 10) 22 700)))) = [20]
   \<and> list_all (\<lambda>a. \<not> (answer.question a = 10 \<and> answer.author a = user.x_id root))
         (answers store3)
   \<and> 22 \<notin> set (map answer.x_id (answers store3))
   \<and> snd (post_answer store3 root demo_content (Some 10) 22 700) =
       Response 201 (MessageAnswer ''Answer posted successfully''
                       (AnswerView (new_Answer 22 demo_content 10 (user.x_id root) 700) 0 None))
   \<and> answers (fst (post_answer store3 root demo_content (Some 10) 22 700)) =
       answers store3 @ [new_Answer 22 demo_content 10 (user.x_id root) 700]"
proof -
  have nq: "\<not> question.isDeleted
              (new_Question 10 demo_title demo_description [''css'', ''html''] 1 100)"
    by (simp add: new_Question_def)
  have b: "new_Answer 20 demo_content 10 2 200 \<in> set (answers store3)"
    "answer.question (new_Answer 20 demo_content 10 2 200) = 10"
    "answer.author (new_Answer 20 demo_content 10 2 200) = user.x_id bob"
    "\<not> answer.isDeleted (new_Answer 20 demo_content 10 2 200)"
    "answer.x_id (new_Answer 20 demo_content 10 2 200) = 20"
    "user.x_id bob = 2"
    by (simp_all add: store3_answers_list new_Answer_def bob_def alice_def)
  have none: "\<forall>a \<in> set (answers store3).
                \<not> (answer.question a = 10 \<and> answer.author a = user.x_id root)"
    "22 \<notin> set (map answer.x_id (answers store3))"
    by (simp_all add: store3_answers_list new_Answer_def root_def alice_def)
  note t1 = post_answer_second_rejected [OF reachable_store3,
      of "new_Answer 20 demo_content 10 2 200" 10 bob demo_content 22 700
         "new_Question 10 demo_title demo_description [''css'', ''html''] 1 100"]
  from t1 [THEN conjunct1, THEN mp, OF conjI [OF b(1) conjI [OF b(2) conjI [OF b(3) b(4)]]]]
    store3_question nq
  have c: "fst (post_answer store3 bob demo_content (Some 10) 22 700) = store3"
    "20 \<le> length demo_content \<longrightarrow> snd (post_answer store3 bob demo_content (Some 10) 22 700) =
       Response 400 (Message ''You have already answered this question'')"
    "map answer.x_id
        (filter (\<lambda>a. answer.question a = 10 \<and> answer.author a = user.x_id bob
                    \<and> \<not> answer.isDeleted a)
           (answers (fst (post_answer store3 bob demo_content (Some 10) 22 700)))) =
       [answer.x_id (new_Answer 20 demo_content 10 2 200)]"
    by blast+
  from c(1) c(2) demo_content_length
  have one: "post_answer store3 bob demo_content (Some 10) 22 700 =
       (store3, Response 400 (Message ''You have already answered this question''))"
    by (simp add: prod_eq_iff)
  from c(3) have one': "map answer.x_id
        (filter (\<lambda>a. answer.question a = 10 \<and> answer.author a = user.x_id bob
                    \<and> \<not> answer.isDeleted a)
           (answers (fst (post_answer store3 bob demo_content (Some 10) 22 700)))) = [20]"
    by (simp only: b(5))
  note t2 = post_answer_second_rejected [OF reachable_store3,
      of "new_Answer 20 demo_content 10 2 200" 10 root demo_content 22 700
         "new_Question 10 demo_title demo_description [''css'', ''html''] 1 100"]
  from t2 [THEN conjunct2, THEN mp, OF conjI [OF store3_question conjI [OF nq
      conjI [OF none(1) conjI [OF demo_content_length none(2)]]]]]
  have two: "snd (post_answer store3 root demo_content (Some 10) 22 700) =
       Response 201 (MessageAnswer ''Answer posted successfully''
                       (AnswerView (new_Answer 22 demo_content 10 (user.x_id root) 700) 0 None))"
    "answers (fst (post_answer store3 root demo_content (Some 10) 22 700)) =
       answers store3 @ [new_Answer 22 demo_content 10 (user.x_id root) 700]"
    by blast+
  from none(1) have none': "list_all (\<lambda>a. \<not> (answer.question a = 10
      \<and> answer.author a = user.x_id root)) (answers store3)"
    by (simp only: list_all_iff)
  from reachable_store3 store3_question b(1,6) demo_content_length one one' none' none(2) two
  show ?thesis by (intro conjI)
qed

text \<open>
  C10. Let \<open>Q\<close> be a question that is not soft-deleted. If every answer of the user
  \<open>u\<close> to \<open>Q\<close> has \<open>isDeleted = true\<close>, the duplicate check (which filters on
  \<open>isDeleted: false\<close>) finds nothing: with a content that passes validation and a new
  generated id, \<open>POST /answers\<close> by \<open>u\<close> with \<open>questionId = Q\<close> answers 201
  with the created answer, which is appended to the collection.
\<close>

theorem post_answer_after_soft_delete:
  assumes fq: "Question_findById s Q = Some q" and nq: "\<not> question.isDeleted q"
    and gone: "\<forall>a \<in> set (answers s). answer.question a = Q \<and> answer.author a = user.x_id u
                 \<longrightarrow> answer.isDeleted a"
    and len: "20 \<le> length c" and fresh: "i \<notin> set (map answer.x_id (answers s))"
  shows "snd (post_answer s u c (Some Q) i now) =
           Response 201 (MessageAnswer ''Answer posted successfully''
                           (AnswerView (new_Answer i c Q (user.x_id u) now) 0 None))
    \<and> answers (fst (post_answer s u c (Some Q) i now)) =
           answers s @ [new_Answer i c Q (user.x_id u) now]"
  using post_answer_created [OF assms] by simp

theorem post_answer_after_soft_delete_witness:
  "Question_findById store5 10 =
     Some (new_Question 10 demo_title demo_description [''css'', ''html''] 1 100)
   \<and> (\<exists>a \<in> set (answers store5). answer.question a = 10 \<and> answer.author a = user.x_id bob
         \<and> answer.isDeleted a)
   \<and> list_all (\<lambda>a. answer.question a = 10 \<and> answer.author a = user.x_id bob
                     \<longrightarrow> answer.isDeleted a) (answers store5)
   \<and> 20 \<le> length demo_content \<and> 22 \<notin> set (map answer.x_id (answers store5))
   \<and> snd (post_answer store5 bob demo_content (Some 10) 22 700) =
       Response 201 (MessageAnswer ''Answer posted successfully''
                       (AnswerView (new_Answer 22 demo_content 10 (user.x_id bob) 700) 0 None))
   \<and> answers (fst (post_answer store5 bob demo_content (Some 10) 22 700)) =
       answers store5 @ [new_Answer 22 demo_content 10 (user.x_id bob) 700]"
proof -
  have nq: "\<not> question.isDeleted
              (new_Question 10 demo_title demo_description [''css'', ''html''] 1 100)"
    by (simp add: new_Question_def)
  have gone: "\<forall>a \<in> set (answers store5). answer.question a = 10
                \<and> answer.author a = user.x_id bob \<longrightarrow> answer.isDeleted a"
    and was: "\<exists>a \<in> set (answers store5). answer.question a = 10
                \<and> answer.author a = user.x_id bob \<and> answer.isDeleted a"
    and fresh: "22 \<notin> set (map answer.x_id (answers store5))"
    by (simp_all add: store5_answers_list new_Answer_def bob_def alice_def)
  from post_answer_after_soft_delete [OF store5_question nq gone demo_content_length fresh,
      of 700]
    store5_question was gone demo_content_length fresh
  show ?thesis by (intro conjI) (simp_all add: list_all_iff)
qed

subsection \<open>Ownership of questions\<close>

text \<open>
  C7. Let \<open>Q\<close> be a stored question and \<open>c\<close> a caller who is neither the author of
  \<open>Q\<close> nor an admin. \<open>PUT /questions/:id\<close> and \<open>DELETE /questions/:id\<close> by
  \<open>c\<close> leave the whole store, and so every field of \<open>Q\<close>, unchanged, whatever the
  body. When \<open>Q\<close> is not soft-deleted (a soft-deleted question is answered as not
  found), \<open>DELETE\<close> answers 403, and so does \<open>PUT\<close> with a body that passes
  validation.
\<close>

theorem question_edit_forbidden:
  assumes fq: "Question_findById s i = Some q"
    and na: "question.author q \<noteq> user.x_id c" and nr: "role c \<noteq> ''admin''"
  shows "fst (put_question s c i t d ts er now) = s
    \<and> fst (delete_question s c i r now) = s
    \<and> (\<not> question.isDeleted q \<longrightarrow>
         delete_question s c i r now =
           (s, Response 403 (Message ''Not authorized to delete this question''))
         \<and> (put_question_errors t d ts = [] \<longrightarrow>
              put_question s c i t d ts er now =
                (s, Response 403 (Message ''Not authorized to edit this question''))))"
  using assms by (simp add: put_question_def delete_question_def Let_def)

theorem question_edit_forbidden_witness:
  "Question_findById store3 10 =
     Some (new_Question 10 demo_title demo_description [''css'', ''html''] 1 100)
   \<and> question.author (new_Question 10 demo_title demo_description [''css'', ''html''] 1 100)
       \<noteq> user.x_id carol
   \<and> role carol \<noteq> ''admin''
   \<and> put_question_errors (Some ''A better title for this'') None None = []
   \<and> delete_question store3 carol 10 None 900 =
       (store3, Response 403 (Message ''Not authorized to delete this question''))
   \<and> put_question store3 carol 10 (Some ''A better title for this'') None None None 900 =
       (store3, Response 403 (Message ''Not authorized to edit this question''))"
proof -
  have h: "question.author (new_Question 10 demo_title demo_description [''css'', ''html''] 1 100)
       \<noteq> user.x_id carol" "role carol \<noteq> ''admin''"
    "\<not> question.isDeleted
              (new_Question 10 demo_title demo_description [''css'', ''html''] 1 100)"
    by (simp_all add: new_Question_def carol_def alice_def)
  have v: "put_question_errors (Some ''A better title for this'') None None = []"
    by (simp add: put_question_errors_def)
  from question_edit_forbidden [OF store3_question h(1,2),
      of "Some ''A better title for this''" None None None 900 None] h(3) v
    store3_question h(1,2)
  show ?thesis by simp
qed

subsection \<open>Banning a user\<close>

text \<open>
  C8. \<open>PUT /users/:id/ban\<close>, behind \<open>requireAdmin\<close>: with a missing or empty
  \<open>reason\<close> it answers 400 with the validation error and the store is unchanged; with
  a reason and no user under the id, 404; with a reason and a target whose role is
  \<open>admin\<close>, 403, the store (and so the target) unchanged; otherwise 200, and the
  target is stored with \<open>isBanned = true\<close> and \<open>banReason\<close> the given reason (and
  the time stamp of the write; a target that is banned for this reason already is not
  written), every other user and collection as before.
\<close>

theorem ban_user_cases:
  "((reason = None \<or> reason = Some []) \<longrightarrow>
      ban_user s i reason now = (s, Response 400 (Errors [''Ban reason is required''])))
   \<and> (r \<noteq> [] \<and> User_findById s i = None \<longrightarrow>
        ban_user s i (Some r) now = (s, Response 404 (Message ''User not found'')))
   \<and> (r \<noteq> [] \<and> User_findById s i = Some t \<and> role t = ''admin'' \<longrightarrow>
        ban_user s i (Some r) now = (s, Response 403 (Message ''Cannot ban admin users'')))
   \<and> (r \<noteq> [] \<and> User_findById s i = Some t \<and> role t \<noteq> ''admin'' \<longrightarrow>
        snd (ban_user s i (Some r) now) = Response 200 (Message ''User banned successfully'')
        \<and> User_findById (fst (ban_user s i (Some r) now)) i =
             Some (if isBanned t \<and> banReason t = r then t
                   else t\<lparr>isBanned := True, banReason := r, user.updatedAt := now\<rparr>)
        \<and> map_option isBanned (User_findById (fst (ban_user s i (Some r) now)) i) = Some True
        \<and> map_option banReason (User_findById (fst (ban_user s i (Some r) now)) i) = Some r
        \<and> (\<forall>j. j \<noteq> i \<longrightarrow>
              User_findById (fst (ban_user s i (Some r) now)) j = User_findById s j)
        \<and> questions (fst (ban_user s i (Some r) now)) = questions s
        \<and> answers (fst (ban_user s i (Some r) now)) = answers s
        \<and> notifications (fst (ban_user s i (Some r) now)) = notifications s)"
proof (intro conjI impI allI)
  assume "reason = None \<or> reason = Some []"
  then show "ban_user s i reason now = (s, Response 400 (Errors [''Ban reason is required'']))"
    by (auto simp: ban_user_def)
next
  assume "r \<noteq> [] \<and> User_findById s i = None"
  then show "ban_user s i (Some r) now = (s, Response 404 (Message ''User not found''))"
    by (simp add: ban_user_def)
next
  assume "r \<noteq> [] \<and> User_findById s i = Some t \<and> role t = ''admin''"
  then show "ban_user s i (Some r) now = (s, Response 403 (Message ''Cannot ban admin users''))"
    by (simp add: ban_user_def)
next
  assume h: "r \<noteq> [] \<and> User_findById s i = Some t \<and> role t \<noteq> ''admin''"
  then have st: "ban_user s i (Some r) now =
      (save_user s t (t\<lparr>isBanned := True, banReason := r\<rparr>) now,
       Response 200 (Message ''User banned successfully''))"
    by (simp add: ban_user_def)
  from h have ft: "User_findById s i = Some t" by simp
  from User_findById_mem [OF ft] have ti: "user.x_id t = i" by simp
  show "snd (ban_user s i (Some r) now) = Response 200 (Message ''User banned successfully'')"
    by (simp add: st)
  have xi: "user.x_id (t\<lparr>isBanned := True, banReason := r\<rparr>) = user.x_id t" by simp
  note sv = User_findById_save_loaded [OF ft xi]
  show e: "User_findById (fst (ban_user s i (Some r) now)) i =
             Some (if isBanned t \<and> banReason t = r then t
                   else t\<lparr>isBanned := True, banReason := r, user.updatedAt := now\<rparr>)"
    by (simp add: st sv after_save_user_ban)
  show "map_option isBanned (User_findById (fst (ban_user s i (Some r) now)) i) = Some True"
    "map_option banReason (User_findById (fst (ban_user s i (Some r) now)) i) = Some r"
    by (simp_all add: e)
  show "questions (fst (ban_user s i (Some r) now)) = questions s"
    "answers (fst (ban_user s i (Some r) now)) = answers s"
    "notifications (fst (ban_user s i (Some r) now)) = notifications s"
    by (simp_all add: ban_user_collections)
  fix j assume "j \<noteq> i"
  then show "User_findById (fst (ban_user s i (Some r) now)) j = User_findById s j"
    by (simp add: st sv)
qed

theorem ban_user_cases_witness:
  "ban_user store3 2 None 800 = (store3, Response 400 (Errors [''Ban reason is required'']))
   \<and> ban_user store3 77 (Some ''spam'') 800 = (store3, Response 404 (Message ''User not found''))
   \<and> ban_user store3 9 (Some ''spam'') 800 =
       (store3, Response 403 (Message ''Cannot ban admin users''))
   \<and> snd (ban_user store3 2 (Some ''spam'') 800) =
       Response 200 (Message ''User banned successfully'')
   \<and> User_findById (fst (ban_user store3 2 (Some ''spam'') 800)) 2 =
       Some (bob\<lparr>isBanned := True, banReason := ''spam'', user.updatedAt := 800\<rparr>)"
proof -
  have r: "role root = ''admin''" "role bob \<noteq> ''admin''" "''spam'' \<noteq> []"
    by (simp_all add: root_def bob_def alice_def)
  have nb: "(isBanned bob \<and> banReason bob = ''spam'') = False"
    by (simp add: bob_def alice_def)
  from ban_user_cases [of None store3 2 800 "''spam''" bob, THEN conjunct1]
  have a: "ban_user store3 2 None 800 =
      (store3, Response 400 (Errors [''Ban reason is required'']))" by simp
  from ban_user_cases [of None store3 77 800 "''spam''" bob, THEN conjunct2, THEN conjunct1]
    store3_users(3) r(3)
  have b: "ban_user store3 77 (Some ''spam'') 800 =
      (store3, Response 404 (Message ''User not found''))" by simp
  from ban_user_cases [of None store3 9 800 "''spam''" root, THEN conjunct2, THEN conjunct2,
      THEN conjunct1] store3_users(2) r(1,3)
  have c: "ban_user store3 9 (Some ''spam'') 800 =
      (store3, Response 403 (Message ''Cannot ban admin users''))" by simp
  note e = ban_user_cases [of None store3 2 800 "''spam''" bob, THEN conjunct2,
      THEN conjunct2, THEN conjunct2, THEN mp, OF conjI [OF r(3) conjI [OF store3_users(1) r(2)]]]
  from e [THEN conjunct1]
  have d1: "snd (ban_user store3 2 (Some ''spam'') 800) =
       Response 200 (Message ''User banned successfully'')" .
  from e [THEN conjunct2, THEN conjunct1]
  have d2: "User_findById (fst (ban_user store3 2 (Some ''spam'') 800)) 2 =
       Some (bob\<lparr>isBanned := True, banReason := ''spam'', user.updatedAt := 800\<rparr>)"
    by (simp only: nb if_False)
  from a b c d1 d2 show ?thesis by (intro conjI)
qed

subsection \<open>Pagination of the question list\<close>

text \<open>
  C9. A \<open>GET /questions\<close> whose query passes validation answers 200 with a pagination
  object; with \<open>p\<close> the page (1 when absent), \<open>l\<close> the limit (10 when absent, and
  between 1 and 50) and \<open>n\<close> the number of questions that match the filter:
  \<open>totalPages = ceil(n / l)\<close>, which is \<open>(n + l - 1) div l\<close>;
  \<open>totalQuestions = n\<close>; \<open>currentPage = p\<close>; \<open>hasNextPage\<close> holds exactly when
  \<open>p < ceil(n / l)\<close>, that is when \<open>p * l < n\<close>; \<open>hasPrevPage\<close> holds exactly
  when \<open>p > 1\<close>. (\<open>Math.ceil(total / limit)\<close> is taken on the reals: on counts of
  documents the double division has the same ceiling.)
\<close>

theorem get_questions_pagination:
  assumes ok: "get_questions_errors page0 limit0 sort0 = []"
  shows "\<exists>views pg.
     get_questions textSearch sortBy s reqUser page0 limit0 sort0 tag search =
       Response 200 (QuestionList views pg)
     \<and> (let p = (case page0 of None \<Rightarrow> 1 | Some x \<Rightarrow> x);
            l = (case limit0 of None \<Rightarrow> 10 | Some x \<Rightarrow> x);
            n = int (length (filter
                  (matches_filter textSearch (or_default sort0 ''newest'') tag search)
                  (questions s)))
        in 1 \<le> p \<and> 1 \<le> l \<and> l \<le> 50
           \<and> currentPage pg = p \<and> totalQuestions pg = n
           \<and> totalPages pg = \<lceil>real_of_int n / real_of_int l\<rceil>
           \<and> totalPages pg = (n + l - 1) div l
           \<and> (hasNextPage pg \<longleftrightarrow> p < \<lceil>real_of_int n / real_of_int l\<rceil>)
           \<and> (hasNextPage pg \<longleftrightarrow> p * l < n)
           \<and> (hasPrevPage pg \<longleftrightarrow> 1 < p))"
proof -
  define p where "p = (case page0 of None \<Rightarrow> (1::int) | Some x \<Rightarrow> x)"
  define l where "l = (case limit0 of None \<Rightarrow> (10::int) | Some x \<Rightarrow> x)"
  define n where "n = int (length (filter
                  (matches_filter textSearch (or_default sort0 ''newest'') tag search)
                  (questions s)))"
  from ok have pl: "1 \<le> p" "1 \<le> l" "l \<le> 50"
    by (auto simp: get_questions_errors_def p_def l_def split: option.splits if_splits)
  from pl have p': "(case page0 of None \<Rightarrow> 1 | Some x \<Rightarrow> if x = 0 then 1 else x) = p"
    and l': "(case limit0 of None \<Rightarrow> 10 | Some x \<Rightarrow> if x = 0 then 10 else x) = l"
    by (auto simp: p_def l_def split: option.splits)
  have l0: "0 < l" using pl by simp
  have "get_questions textSearch sortBy s reqUser page0 limit0 sort0 tag search =
      Response 200 (QuestionList
        (map (\<lambda>qn. QuestionView qn
                        (int (length (upvotes (question.votes qn)))
                           - int (length (downvotes (question.votes qn))))
                        (case reqUser of None \<Rightarrow> None
                         | Some u \<Rightarrow>
                             if list_ex (\<lambda>v. vote.user v = user.x_id u)
                                  (upvotes (question.votes qn)) then Some ''upvote''
                             else if list_ex (\<lambda>v. vote.user v = user.x_id u)
                                  (downvotes (question.votes qn)) then Some ''downvote''
                             else None))
           (take (nat l) (drop (nat ((p - 1) * l))
              (sortBy (or_default sort0 ''newest'')
                 (filter (matches_filter textSearch (or_default sort0 ''newest'') tag search)
                    (questions s))))))
        \<lparr>currentPage = p, totalPages = \<lceil>real_of_int n / real_of_int l\<rceil>,
         totalQuestions = n,
         hasNextPage = (p < \<lceil>real_of_int n / real_of_int l\<rceil>), hasPrevPage = (p > 1)\<rparr>)"
    using ok by (simp add: get_questions_def Let_def p' l' n_def)
  then show ?thesis
    unfolding Let_def p_def [symmetric] l_def [symmetric] n_def [symmetric]
    using pl by (simp add: ceiling_div_pos [OF l0] less_ceiling_div [OF l0]
        flip: ceiling_div_pos [OF l0])
qed

theorem get_questions_pagination_witness:
  "get_questions_errors (Some 1) (Some 2) None = []
   \<and> (\<exists>views pg.
        get_questions (\<lambda>x q. True) (\<lambda>k qs. qs) store6 None (Some 1) (Some 2) None None None =
          Response 200 (QuestionList views pg)
        \<and> currentPage pg = 1 \<and> totalQuestions pg = 3 \<and> totalPages pg = 2
        \<and> hasNextPage pg \<and> \<not> hasPrevPage pg)"
proof -
  have ok: "get_questions_errors (Some 1) (Some 2) None = []"
    by (simp add: get_questions_errors_def)
  from get_questions_pagination [OF ok, of "\<lambda>x q. True" "\<lambda>k qs. qs" store6 None None None]
  obtain views pg where
    "get_questions (\<lambda>x q. True) (\<lambda>k qs. qs) store6 None (Some 1) (Some 2) None None None =
          Response 200 (QuestionList views pg)"
    "currentPage pg = 1" "totalQuestions pg = 3" "totalPages pg = (3 + 2 - 1) div 2"
    "hasNextPage pg \<longleftrightarrow> (1::int) * 2 < 3" "hasPrevPage pg \<longleftrightarrow> (1::int) < 1"
    unfolding Let_def store6_count by auto
  then have "get_questions (\<lambda>x q. True) (\<lambda>k qs. qs) store6 None (Some 1) (Some 2) None None None =
          Response 200 (QuestionList views pg)
        \<and> currentPage pg = 1 \<and> totalQuestions pg = 3 \<and> totalPages pg = 2
        \<and> hasNextPage pg \<and> \<not> hasPrevPage pg" by simp
  with ok show ?thesis by blast
qed

end
